theory Spec2Isabelle
  imports Main "HOL-Library.Word"
begin

unbundle bit_operations_syntax

section \<open>Machine types and constants\<close>

text \<open>
  The kernel is built for x86-64: \<open>u64\<close>, \<open>usize\<close> and \<open>uptr\<close> are 64-bit unsigned
  integers whose arithmetic wraps around, \<open>u16\<close> is 16 bits wide and \<open>int\<close> is 32 bits wide.
\<close>

type_synonym u64 = "64 word"
type_synonym u16 = "16 word"

text \<open>\<open>static constexpr usize PAGE_SIZE = 4096\<close> (paging.hpp).\<close>

definition PAGE_SIZE :: u64 where
  "PAGE_SIZE = 4096"

text \<open>
  The expression \<open>1 << n\<close> as the source writes it in \<open>PageTableEntry::get_bit\<close> and in
  \<open>PageBitmap::set\<close>/\<open>get\<close>: the left operand is the literal \<open>1\<close> of type \<open>int\<close>, so the
  shift is carried out on a 32-bit signed integer whatever the type of the count, and only
  the result is converted to the 64-bit operand it is combined with. For a count below 31
  this is the single bit \<open>n\<close>; for the count 31 it is \<open>INT_MIN\<close>, whose conversion to
  \<open>u64\<close> sign-extends to bits 31 to 63; for a count of 32 or more the behaviour of the
  shift is undefined, which the model records as \<open>None\<close>.
\<close>

definition shl_int_one :: "u64 \<Rightarrow> u64 option" where
  "shl_int_one n =
     (if n < 32 then Some (scast (push_bit (unat n) (1 :: 32 word))) else None)"

section \<open>Helpers of \<open>stl/math.hpp\<close>\<close>

text \<open>
  Modelled from the spec: \<open>mat::math::bit_mask\<close> is declared in \<open>stl/math.hpp\<close>, which is
  not among the sources. The specification places the available value in entry bits 8 to
  11 and 52 to 62 and the address in bits 12 and up; these are the regions
  \<open>bit_mask(4) << 8\<close>, \<open>bit_mask(11) << 52\<close> and \<open>~bit_mask(12)\<close> of the source exactly
  when \<open>bit_mask<u64>(n)\<close> is the value whose \<open>n\<close> lowest bits are set.
\<close>

definition bit_mask :: "nat \<Rightarrow> u64" where
  "bit_mask n = push_bit n 1 - 1"

text \<open>
  Modelled from the spec: \<open>mat::math::set_bit\<close> is declared in \<open>stl/math.hpp\<close>, which is
  not among the sources. The specification requires of the setters built on it that they
  ``operate on exactly one bit each'' and ``read-modify-write without disturbing other
  bits'': bit \<open>idx\<close> of the value becomes \<open>b\<close>, every other bit stays.
\<close>

definition math_set_bit :: "u64 \<Rightarrow> u64 \<Rightarrow> bool \<Rightarrow> u64" where
  "math_set_bit v idx b =
     (if b then v OR push_bit (unat idx) 1 else v AND NOT (push_bit (unat idx) 1))"

section \<open>Page table entries\<close>

text \<open>
  A \<open>PageTableEntry\<close> holds one field, \<open>u64 m_value\<close>; the model passes that value and
  returns the updated one from every mutating member function. A \<open>PhysicalAddress\<close>
  wraps one \<open>uptr\<close> and is passed as that value.
\<close>

definition get_bit :: "u64 \<Rightarrow> u64 \<Rightarrow> bool option" where
  "get_bit m_value idx = map_option (\<lambda>m. m_value AND m \<noteq> 0) (shl_int_one idx)"

definition set_bit_pte :: "u64 \<Rightarrow> u64 \<Rightarrow> bool \<Rightarrow> u64" where
  "set_bit_pte m_value idx v = math_set_bit m_value idx v"

definition addr :: "u64 \<Rightarrow> u64" where
  "addr m_value = m_value AND ((push_bit 52 1 - 1) AND NOT (push_bit 12 1 - 1))"

definition set_addr :: "u64 \<Rightarrow> u64 \<Rightarrow> u64" where
  "set_addr m_value v =
     (m_value AND NOT (push_bit 12 (bit_mask (48 - 12))))
       OR (v AND NOT (bit_mask 12) AND bit_mask 48)"

definition is_present :: "u64 \<Rightarrow> bool option" where
  "is_present m_value = get_bit m_value 0"

definition set_present :: "u64 \<Rightarrow> bool \<Rightarrow> u64" where
  "set_present m_value v = set_bit_pte m_value 0 v"

definition is_writable :: "u64 \<Rightarrow> bool option" where
  "is_writable m_value = get_bit m_value 1"

definition set_writable :: "u64 \<Rightarrow> bool \<Rightarrow> u64" where
  "set_writable m_value v = set_bit_pte m_value 1 v"

definition is_user :: "u64 \<Rightarrow> bool option" where
  "is_user m_value = get_bit m_value 2"

definition set_user :: "u64 \<Rightarrow> bool \<Rightarrow> u64" where
  "set_user m_value v = set_bit_pte m_value 2 v"

definition is_ps :: "u64 \<Rightarrow> bool option" where
  "is_ps m_value = get_bit m_value 7"

definition set_ps :: "u64 \<Rightarrow> bool \<Rightarrow> u64" where
  "set_ps m_value v = set_bit_pte m_value 7 v"

definition is_execution_disabled :: "u64 \<Rightarrow> bool option" where
  "is_execution_disabled m_value = get_bit m_value 63"

definition set_execution_disabled :: "u64 \<Rightarrow> bool \<Rightarrow> u64" where
  "set_execution_disabled m_value v = set_bit_pte m_value 63 v"

text \<open>
  \<open>get_available\<close>: in C++ \<open>>>\<close> binds tighter than \<open>&\<close>, and \<open>&\<close> tighter than \<open>|\<close>;
  the \<open>u64\<close> result is truncated to the \<open>u16\<close> return type.
\<close>

definition get_available :: "u64 \<Rightarrow> u16" where
  "get_available m_value =
     ucast ((drop_bit 47 m_value AND 0xFFE0) OR (drop_bit 7 m_value AND 0x1E))"

definition set_available :: "u64 \<Rightarrow> u16 \<Rightarrow> u64" where
  "set_available m_value v =
     (let m1 = (m_value AND NOT (push_bit 8 (bit_mask 4)))
                 OR push_bit 7 ((ucast v :: u64) AND 0x1E)
      in (m1 AND NOT (push_bit 52 (bit_mask 11)))
           OR push_bit 52 (drop_bit 5 (ucast v :: u64)))"

definition clear_pte :: "u64 \<Rightarrow> u64" where
  "clear_pte m_value = 0"

section \<open>The physical frame allocator: state\<close>

text \<open>
  The types of a Limine memory map entry that \<open>debug_print_memmap\<close> tells apart; the
  allocator only ever asks whether an entry is \<open>LIMINE_MEMMAP_USABLE\<close>.
\<close>

datatype memmap_type =
  USABLE | RESERVED | ACPI_RECLAIMABLE | ACPI_NVS | BAD_MEMORY
  | BOOTLOADER_RECLAIMABLE | KERNEL_AND_MODULES | FRAMEBUFFER

record memmap_entry =
  base :: u64
  length_e :: u64
  type_e :: memmap_type

text \<open>
  The globals of \<open>allocator.cpp\<close>: the responses to the two boot protocol requests (a
  null response pointer is \<open>None\<close>; the memory map response is its list of entries),
  \<open>hhdm_base\<close>, and \<open>bitmap\<close>, of which the model keeps the elements of the span
  \<open>m_data\<close>. Before \<open>init()\<close> runs, \<open>hhdm_base\<close> is 0 and the span is empty.
\<close>

record kernel_state =
  memmap_response :: "memmap_entry list option"
  hhdm_response :: "u64 option"
  hhdm_base :: u64
  bitmap :: "u64 list"

text \<open>
  How a call ends. It returns a value and leaves a state; or it reaches \<open>halt()\<close> in the
  state it had reached; or it runs into behaviour that C++ leaves undefined (a shift of an
  \<open>int\<close> by 32 or more, an access outside a span, a null response dereferenced), after
  which nothing is known.
\<close>

text \<open>
  Modelled from the spec: \<open>halt()\<close> is declared in \<open>intrinsics.hpp\<close>, which is not among
  the sources; the specification describes it as ``a fatal-halt primitive (stops
  execution, does not return)''. A call that reaches it ends as \<open>Halts\<close>.
\<close>

datatype 'a outcome = Returns 'a kernel_state | Halts kernel_state | UndefinedBehaviour

text \<open>
  The two address conversions read the global \<open>hhdm_base\<close>; the model passes its value.
\<close>

definition physical_to_virtual :: "u64 \<Rightarrow> u64 \<Rightarrow> u64" where
  "physical_to_virtual hhdm physical_address = physical_address + hhdm"

definition virtual_to_physical :: "u64 \<Rightarrow> u64 \<Rightarrow> u64" where
  "virtual_to_physical hhdm virtual_address = virtual_address - hhdm"

section \<open>The page bitmap\<close>

text \<open>
  \<open>PageBitmap(address, byte_size)\<close> views \<open>byte_size / sizeof(u64)\<close> elements, and
  \<open>clear()\<close> sets each of them to 0; \<open>init()\<close> calls one right after the other.
\<close>

definition PageBitmap_cleared :: "u64 \<Rightarrow> u64 list" where
  "PageBitmap_cleared byte_size = replicate (unat (byte_size div 8)) 0"

text \<open>
  Modelled from the spec: \<open>mat::Span\<close> and its \<open>operator[]\<close> are declared in
  \<open>stl/span.hpp\<close>, which is not among the sources; the specification calls the span ``a
  raw byte-range view type used to address the bitmap storage''. An index at or beyond
  the number of elements lies outside the view, and \<open>set\<close> and \<open>get\<close> below record an
  access there as undefined (\<open>None\<close>), as they do the undefined shift.
\<close>

definition PageBitmap_set :: "u64 list \<Rightarrow> u64 \<Rightarrow> bool \<Rightarrow> u64 list option" where
  "PageBitmap_set m_data index v =
     (let array_index = index div 64; bit_index = index mod 64 in
      case shl_int_one bit_index of
        None \<Rightarrow> None
      | Some m \<Rightarrow>
          if unat array_index < length m_data
          then Some (m_data[unat array_index :=
                       (if v then m_data ! unat array_index OR m
                        else m_data ! unat array_index AND NOT m)])
          else None)"

definition PageBitmap_get :: "u64 list \<Rightarrow> u64 \<Rightarrow> bool option" where
  "PageBitmap_get m_data index =
     (let array_index = index div 64; bit_index = index mod 64 in
      case shl_int_one bit_index of
        None \<Rightarrow> None
      | Some m \<Rightarrow>
          if unat array_index < length m_data
          then Some (m_data ! unat array_index AND m \<noteq> 0)
          else None)"

section \<open>\<open>kernel::alloc::init\<close>\<close>

text \<open>
  Modelled from the spec: \<open>mat::math::div_ceil\<close> is declared in \<open>stl/math.hpp\<close>, which is
  not among the sources; the specification has it ``compute how many whole pages that
  occupies'', the quotient rounded up.
\<close>

definition div_ceil :: "u64 \<Rightarrow> u64 \<Rightarrow> u64" where
  "div_ceil a b = a div b + (if a mod b = 0 then 0 else 1)"

definition usable_memory :: "memmap_entry list \<Rightarrow> u64" where
  "usable_memory entries =
     foldl (\<lambda>acc e. if type_e e = USABLE then acc + length_e e else acc) 0 entries"

definition pages :: "memmap_entry list \<Rightarrow> u64" where
  "pages entries = usable_memory entries div PAGE_SIZE"

definition bitmap_array_size :: "memmap_entry list \<Rightarrow> u64" where
  "bitmap_array_size entries = pages entries div 8"

definition bitmap_page_size :: "memmap_entry list \<Rightarrow> u64" where
  "bitmap_page_size entries = div_ceil (bitmap_array_size entries) PAGE_SIZE"

text \<open>
  The second loop of \<open>init()\<close>: the result is \<open>(bitmap_array_addr, skipped_pages)\<close> as
  they stand when the loop is left, the address being 0 (\<open>nullptr\<close>) when no entry was
  chosen.
\<close>

fun find_bitmap_space :: "u64 \<Rightarrow> u64 \<Rightarrow> memmap_entry list \<Rightarrow> u64 \<Rightarrow> u64 \<times> u64" where
  "find_bitmap_space hhdm sz [] skipped_pages = (0, skipped_pages)"
| "find_bitmap_space hhdm sz (e # es) skipped_pages =
     (if type_e e = USABLE then
        (if sz \<le> length_e e then (physical_to_virtual hhdm (base e), skipped_pages)
         else find_bitmap_space hhdm sz es (skipped_pages + length_e e div PAGE_SIZE))
      else find_bitmap_space hhdm sz es skipped_pages)"

text \<open>
  The third loop of \<open>init()\<close>, \<open>for (usize i = 0; i < bitmap_page_size; ++i)
  bitmap.set(i + skipped_pages, true)\<close>, from the counter value \<open>i\<close> on.
\<close>

function mark_bitmap_pages :: "u64 \<Rightarrow> u64 \<Rightarrow> u64 \<Rightarrow> u64 list \<Rightarrow> u64 list option" where
  "mark_bitmap_pages i n skipped_pages bm =
     (if i < n then
        (case PageBitmap_set bm (i + skipped_pages) True of
           None \<Rightarrow> None
         | Some bm' \<Rightarrow> mark_bitmap_pages (i + 1) n skipped_pages bm')
      else Some bm)"
  by pat_completeness auto
termination
proof (relation "measure (\<lambda>(i, n, _, _). unat n - unat i)")
  show "wf (measure (\<lambda>(i, n, _, _). unat n - unat i))" by simp
next
  fix i n skipped_pages :: u64 and bm bm' :: "u64 list"
  assume "i < n"
  then have "unat i < unat n" by (simp add: word_less_nat_alt)
  moreover have "unat n < 2 ^ 64" using unsigned_less [of n] by simp
  ultimately have "unat (i + 1) = unat i + 1"
    by (simp add: unat_word_ariths)
  with \<open>unat i < unat n\<close>
  show "((i + 1, n, skipped_pages, bm'), (i, n, skipped_pages, bm))
          \<in> measure (\<lambda>(i, n, _, _). unat n - unat i)"
    by simp
qed

declare mark_bitmap_pages.simps [simp del]

definition init :: "kernel_state \<Rightarrow> unit outcome" where
  "init s =
     (case (memmap_response s, hhdm_response s) of
        (Some entries, Some offset) \<Rightarrow>
          (let s1 = s\<lparr>hhdm_base := offset\<rparr>;
               (bitmap_array_addr, skipped_pages) =
                  find_bitmap_space offset (bitmap_array_size entries) entries 0
           in if bitmap_array_addr = 0 then Halts s1
              else
                (case mark_bitmap_pages 0 (bitmap_page_size entries) skipped_pages
                        (PageBitmap_cleared (bitmap_array_size entries)) of
                   None \<Rightarrow> UndefinedBehaviour
                 | Some bm \<Rightarrow> Returns () (s1\<lparr>bitmap := bm\<rparr>)))
      | _ \<Rightarrow> Halts s)"

section \<open>\<open>kernel::alloc::allocate_page\<close>\<close>

text \<open>
  The scan keeps two variables, \<open>page_index\<close> and \<open>page_address\<close>; \<open>Scanned\<close> holds
  their values when a loop is left, \<open>ScanUndefined\<close> says that the loop ran into undefined
  behaviour.
\<close>

datatype scan = Scanned u64 u64 | ScanUndefined

text \<open>
  The inner loop, \<open>for (auto size = PAGE_SIZE; size <= entry->length; size += PAGE_SIZE)\<close>,
  from the counter value \<open>sz\<close> on. The counter is a \<open>usize\<close> and wraps around, so for a
  length within a page of \<open>2^64\<close> the loop need not end: the function is partial, and
  \<open>None\<close> says that the loop does not return.
\<close>

partial_function (option) scan_entry ::
  "u64 list \<Rightarrow> memmap_entry \<Rightarrow> u64 \<Rightarrow> u64 \<Rightarrow> u64 \<Rightarrow> scan option"
where
  "scan_entry bm e sz page_index page_address =
     (if sz \<le> length_e e then
        (case PageBitmap_get bm page_index of
           None \<Rightarrow> Some ScanUndefined
         | Some allocated \<Rightarrow>
             if \<not> allocated then Some (Scanned page_index (base e + sz - PAGE_SIZE))
             else scan_entry bm e (sz + PAGE_SIZE) (page_index + 1) page_address)
      else Some (Scanned page_index page_address))"

declare scan_entry.simps [code]

text \<open>
  The outer loop over the entries, with \<open>if (page_address) break;\<close> after the inner loop
  of a usable entry.
\<close>

fun scan_entries :: "u64 list \<Rightarrow> memmap_entry list \<Rightarrow> u64 \<Rightarrow> u64 \<Rightarrow> scan option" where
  "scan_entries bm [] page_index page_address = Some (Scanned page_index page_address)"
| "scan_entries bm (e # es) page_index page_address =
     (if type_e e = USABLE then
        (case scan_entry bm e PAGE_SIZE page_index page_address of
           None \<Rightarrow> None
         | Some ScanUndefined \<Rightarrow> Some ScanUndefined
         | Some (Scanned page_index' page_address') \<Rightarrow>
             if page_address' \<noteq> 0 then Some (Scanned page_index' page_address')
             else scan_entries bm es page_index' page_address')
      else scan_entries bm es page_index page_address)"

definition allocate_page :: "kernel_state \<Rightarrow> u64 outcome option" where
  "allocate_page s =
     (case memmap_response s of
        None \<Rightarrow> Some UndefinedBehaviour
      | Some entries \<Rightarrow>
          (case scan_entries (bitmap s) entries 0 0 of
             None \<Rightarrow> None
           | Some ScanUndefined \<Rightarrow> Some UndefinedBehaviour
           | Some (Scanned page_index page_address) \<Rightarrow>
               if page_address = 0 then Some (Halts s)
               else
                 (case PageBitmap_set (bitmap s) page_index True of
                    None \<Rightarrow> Some UndefinedBehaviour
                  | Some bm \<Rightarrow>
                      Some (Returns (physical_to_virtual (hhdm_base s) page_address)
                              (s\<lparr>bitmap := bm\<rparr>)))))"

section \<open>\<open>kernel::alloc::free_page\<close>\<close>

text \<open>
  The test of the loop in \<open>free_page\<close>,
  \<open>page_address >= entry->base && page_address < entry->base + entry->length\<close>, in the
  wrapping arithmetic of \<open>uptr\<close>.
\<close>

definition entry_contains :: "memmap_entry \<Rightarrow> u64 \<Rightarrow> bool" where
  "entry_contains e page_address \<longleftrightarrow>
     base e \<le> page_address \<and> page_address < base e + length_e e"

text \<open>The loop of \<open>free_page\<close>: \<open>Some page_index\<close> when \<open>found\<close> is set, \<open>None\<close> otherwise.\<close>

fun find_page_index :: "memmap_entry list \<Rightarrow> u64 \<Rightarrow> u64 \<Rightarrow> u64 option" where
  "find_page_index [] page_address page_index = None"
| "find_page_index (e # es) page_address page_index =
     (if type_e e = USABLE then
        (if entry_contains e page_address
         then Some (page_index + (page_address - base e) div PAGE_SIZE)
         else find_page_index es page_address (page_index + length_e e div PAGE_SIZE))
      else find_page_index es page_address page_index)"

definition free_page :: "kernel_state \<Rightarrow> u64 \<Rightarrow> unit outcome" where
  "free_page s pointer =
     (if pointer mod PAGE_SIZE \<noteq> 0 then Halts s
      else
        (case memmap_response s of
           None \<Rightarrow> UndefinedBehaviour
         | Some entries \<Rightarrow>
             (case find_page_index entries (virtual_to_physical (hhdm_base s) pointer) 0 of
                None \<Rightarrow> Halts s
              | Some page_index \<Rightarrow>
                  (case PageBitmap_set (bitmap s) page_index False of
                     None \<Rightarrow> UndefinedBehaviour
                   | Some bm \<Rightarrow> Returns () (s\<lparr>bitmap := bm\<rparr>)))))"

section \<open>Memory maps as the boot protocol hands them over\<close>

text \<open>
  The types of the model admit memory maps that no firmware reports. The Limine boot
  protocol guarantees of the usable entries that base and length are 4096-byte aligned,
  that they overlap no other entry, and that the memory below \<open>0x1000\<close> is never among
  them. \<open>usable_regions_ok\<close> states what the proofs below need of this: every usable
  entry starts at a page-aligned address other than 0, ends below \<open>2^64\<close>, and is
  disjoint from every usable entry after it.
\<close>

definition entry_ok :: "memmap_entry \<Rightarrow> bool" where
  "entry_ok e \<longleftrightarrow>
     base e \<noteq> 0 \<and> base e mod PAGE_SIZE = 0 \<and> unat (base e) + unat (length_e e) < 2 ^ 64"

definition regions_disjoint :: "memmap_entry \<Rightarrow> memmap_entry \<Rightarrow> bool" where
  "regions_disjoint e e' \<longleftrightarrow>
     unat (base e) + unat (length_e e) \<le> unat (base e')
     \<or> unat (base e') + unat (length_e e') \<le> unat (base e)"

fun usable_regions_ok :: "memmap_entry list \<Rightarrow> bool" where
  "usable_regions_ok [] = True"
| "usable_regions_ok (e # es) =
     ((type_e e = USABLE \<longrightarrow>
         entry_ok e \<and> (\<forall>e'\<in>set es. type_e e' = USABLE \<longrightarrow> regions_disjoint e e'))
      \<and> usable_regions_ok es)"

section \<open>Call sequences and example memory maps\<close>

text \<open>
  \<open>n\<close> calls of \<open>allocate_page\<close> one after the other: the pointers they return, in
  order, and the state they leave; or, when a call does not return a pointer, the way
  that call ends.
\<close>

fun allocate_pages :: "nat \<Rightarrow> kernel_state \<Rightarrow> u64 list outcome option" where
  "allocate_pages 0 s = Some (Returns [] s)"
| "allocate_pages (Suc n) s =
     (case allocate_page s of
        None \<Rightarrow> None
      | Some (Returns pointer s') \<Rightarrow>
          (case allocate_pages n s' of
             Some (Returns pointers s'') \<Rightarrow> Some (Returns (pointer # pointers) s'')
           | other \<Rightarrow> other)
      | Some (Halts s') \<Rightarrow> Some (Halts s')
      | Some UndefinedBehaviour \<Rightarrow> Some UndefinedBehaviour)"

text \<open>
  A memory map with one usable region of exactly 64 pages at 1 MiB, behind a reserved
  first megabyte, with the HHDM offset \<open>0xFFFF800000000000\<close>: the globals as the boot
  loader leaves them, and as they are once \<open>init()\<close> has run and the bitmap holds \<open>bm\<close>.
\<close>

definition example_map :: "memmap_entry list" where
  "example_map =
     [\<lparr>base = 0, length_e = 0x100000, type_e = RESERVED\<rparr>,
      \<lparr>base = 0x100000, length_e = 0x40000, type_e = USABLE\<rparr>]"

definition example_boot :: kernel_state where
  "example_boot =
     \<lparr>memmap_response = Some example_map, hhdm_response = Some 0xFFFF800000000000,
      hhdm_base = 0, bitmap = []\<rparr>"

definition example_state :: "u64 list \<Rightarrow> kernel_state" where
  "example_state bm =
     \<lparr>memmap_response = Some example_map, hhdm_response = Some 0xFFFF800000000000,
      hhdm_base = 0xFFFF800000000000, bitmap = bm\<rparr>"

text \<open>A memory map whose first usable region starts at physical address 0.\<close>

definition zero_based_map :: "memmap_entry list" where
  "zero_based_map =
     [\<lparr>base = 0, length_e = 0x2000, type_e = USABLE\<rparr>,
      \<lparr>base = 0x100000, length_e = 0x2000, type_e = USABLE\<rparr>]"

definition zero_based_state :: "u64 list \<Rightarrow> kernel_state" where
  "zero_based_state bm =
     \<lparr>memmap_response = Some zero_based_map, hhdm_response = Some 0xFFFF800000000000,
      hhdm_base = 0xFFFF800000000000, bitmap = bm\<rparr>"

text \<open>
  A memory map with 32834 usable pages in three regions: one page at physical address 0,
  one page at \<open>0x10000\<close>, and 32832 pages at 1 MiB. Its bitmap takes 4104 bytes, more
  than either of the one-page regions holds, so \<open>init()\<close> places it in the third region;
  the span has 513 elements, of which \<open>sentinel_state w\<close> has the first equal to \<open>w\<close> and
  the others 0.
\<close>

definition sentinel_map :: "memmap_entry list" where
  "sentinel_map =
     [\<lparr>base = 0, length_e = 0x1000, type_e = USABLE\<rparr>,
      \<lparr>base = 0x10000, length_e = 0x1000, type_e = USABLE\<rparr>,
      \<lparr>base = 0x100000, length_e = 0x8040000, type_e = USABLE\<rparr>]"

definition sentinel_boot :: kernel_state where
  "sentinel_boot =
     \<lparr>memmap_response = Some sentinel_map, hhdm_response = Some 0xFFFF800000000000,
      hhdm_base = 0, bitmap = []\<rparr>"

definition sentinel_state :: "u64 \<Rightarrow> kernel_state" where
  "sentinel_state w =
     \<lparr>memmap_response = Some sentinel_map, hhdm_response = Some 0xFFFF800000000000,
      hhdm_base = 0xFFFF800000000000, bitmap = w # replicate 512 0\<rparr>"

text \<open>
  A memory map with 32832 usable pages in two regions behind a reserved range: one page
  at \<open>0x10000\<close> and 32831 pages at 1 MiB. Its bitmap takes 4104 bytes, more than the
  one-page region holds, so \<open>init()\<close> skips that region and places the bitmap in the
  second one; the span has 513 elements, of which \<open>skipping_state w\<close> has the first
  equal to \<open>w\<close> and the others 0.
\<close>

definition skipping_map :: "memmap_entry list" where
  "skipping_map =
     [\<lparr>base = 0, length_e = 0x10000, type_e = RESERVED\<rparr>,
      \<lparr>base = 0x10000, length_e = 0x1000, type_e = USABLE\<rparr>,
      \<lparr>base = 0x100000, length_e = 0x803F000, type_e = USABLE\<rparr>]"

definition skipping_boot :: kernel_state where
  "skipping_boot =
     \<lparr>memmap_response = Some skipping_map, hhdm_response = Some 0xFFFF800000000000,
      hhdm_base = 0, bitmap = []\<rparr>"

definition skipping_state :: "u64 \<Rightarrow> kernel_state" where
  "skipping_state w =
     \<lparr>memmap_response = Some skipping_map, hhdm_response = Some 0xFFFF800000000000,
      hhdm_base = 0xFFFF800000000000, bitmap = w # replicate 512 0\<rparr>"

text \<open>A memory map with one usable region of 65 pages.\<close>

definition map65 :: "memmap_entry list" where
  "map65 = [\<lparr>base = 0x100000, length_e = 0x41000, type_e = USABLE\<rparr>]"

section \<open>Properties of page table entries\<close>

lemma bit_mask_eq_mask: "bit_mask n = mask n"
  by (simp add: bit_mask_def mask_eq_exp_minus_1)

lemma bit_range_int:
  "bit (push_bit lo (mask k) :: int) n \<longleftrightarrow> lo \<le> n \<and> n < lo + k"
  by (auto simp add: bit_push_bit_iff bit_mask_iff)

lemma bit_0xFFE0: "bit (0xFFE0 :: int) n \<longleftrightarrow> 5 \<le> n \<and> n < 16"
  using bit_range_int [of 5 11 n] by (simp add: mask_eq_exp_minus_1)

lemma bit_0x1E: "bit (0x1E :: int) n \<longleftrightarrow> 1 \<le> n \<and> n < 5"
  using bit_range_int [of 1 4 n] by (simp add: mask_eq_exp_minus_1)

lemma bit_0xF: "bit (0xF :: int) n \<longleftrightarrow> n < 4"
  using bit_range_int [of 0 4 n] by (simp add: mask_eq_exp_minus_1)

lemma bit_0xF00: "bit (0xF00 :: int) n \<longleftrightarrow> 8 \<le> n \<and> n < 12"
  using bit_range_int [of 8 4 n] by (simp add: mask_eq_exp_minus_1)

lemma bit_0xFFFE: "bit (0xFFFE :: int) n \<longleftrightarrow> 1 \<le> n \<and> n < 16"
  using bit_range_int [of 1 15 n] by (simp add: mask_eq_exp_minus_1)

lemma bit_available_region:
  "bit (0x7FF0000000000F00 :: int) n \<longleftrightarrow> (8 \<le> n \<and> n < 12) \<or> (52 \<le> n \<and> n < 63)"
proof -
  have "(0x7FF0000000000F00 :: int) = push_bit 8 (mask 4) OR push_bit 52 (mask 11)"
    by (simp add: mask_eq_exp_minus_1)
  then show ?thesis
    by (simp only: bit_or_iff bit_range_int) auto
qed

lemma bit_0xF000000000000: "bit (0xF000000000000 :: int) n \<longleftrightarrow> 48 \<le> n \<and> n < 52"
  using bit_range_int [of 48 4 n] by (simp add: mask_eq_exp_minus_1)

lemma bit_0xFFFFFFFFF000: "bit (0xFFFFFFFFF000 :: int) n \<longleftrightarrow> 12 \<le> n \<and> n < 48"
  using bit_range_int [of 12 36 n] by (simp add: mask_eq_exp_minus_1)

lemma addr_mask_eq:
  "(push_bit 52 1 - 1) AND NOT (push_bit 12 1 - 1) = (push_bit 12 (mask 40) :: u64)"
  by (simp add: mask_eq_exp_minus_1)

lemma or_and_same: "(e OR m) AND m = (m :: 'a::len word)"
  by (rule bit_word_eqI) (auto simp add: bit_simps)

lemma andnot_and_same: "(e AND NOT m) AND m = (0 :: 'a::len word)"
  by (rule bit_word_eqI) (auto simp add: bit_simps)

lemma get_bit_set_bit_pte:
  assumes "shl_int_one idx = Some m" and "push_bit (unat idx) 1 = m" and "m \<noteq> 0"
  shows "get_bit (set_bit_pte e idx v) idx = Some v"
  using assms
  by (cases v)
    (simp_all add: get_bit_def set_bit_pte_def math_set_bit_def or_and_same andnot_and_same)

text \<open>
  The four flags below bit 31 round-trip: for Present, Writable, User and PageSize the
  getter returns what the setter stored, whatever the other bits of the entry are.
\<close>

lemma low_flags_round_trip:
  "is_present (set_present e v) = Some v"
  "is_writable (set_writable e v) = Some v"
  "is_user (set_user e v) = Some v"
  "is_ps (set_ps e v) = Some v"
  unfolding is_present_def set_present_def is_writable_def set_writable_def
    is_user_def set_user_def is_ps_def set_ps_def
  by (rule get_bit_set_bit_pte, simp add: shl_int_one_def, simp, simp)+

text \<open>
  What \<open>set_addr\<close> followed by \<open>addr\<close> yields in general: bits 12 to 47 of the new
  address, and bits 48 to 51 of the entry as it was before.
\<close>

lemma addr_set_addr:
  "addr (set_addr e p) = (e AND 0xF000000000000) OR (p AND 0xFFFFFFFFF000)"
  unfolding addr_def set_addr_def bit_mask_eq_mask addr_mask_eq
  by (rule bit_word_eqI)
    (auto simp add: bit_simps bit_0xF000000000000 bit_0xFFFFFFFFF000)

text \<open>
  C3 (as amended). For every \<open>u16\<close> value \<open>v\<close> and every entry, \<open>set_available(v)\<close>
  followed by \<open>get_available()\<close> returns \<open>v\<close> with its lowest bit cleared: the source
  leaves bit 0 of the value out on purpose (``it can be the Dirty bit for PT entries'').
  Bits 1 to 4 of \<open>v\<close> are what entry bits 8 to 11 hold afterwards, bits 5 to 15 of \<open>v\<close> are
  what entry bits 52 to 62 hold, and no entry bit outside these two regions changes.
\<close>

theorem available_round_trip_drops_bit0:
  "get_available (set_available e v) = v AND 0xFFFE
   \<and> take_bit 4 (drop_bit 8 (set_available e v)) = ucast (take_bit 4 (drop_bit 1 v))
   \<and> take_bit 11 (drop_bit 52 (set_available e v)) = ucast (drop_bit 5 v)
   \<and> set_available e v AND NOT 0x7FF0000000000F00 = e AND NOT 0x7FF0000000000F00"
proof -
  have "get_available (set_available e v) = v AND 0xFFFE"
    unfolding get_available_def set_available_def Let_def bit_mask_eq_mask
    by (rule bit_word_eqI) (auto simp add: bit_simps bit_0xFFE0 bit_0x1E bit_0xFFFE)
  moreover have "take_bit 4 (drop_bit 8 (set_available e v)) = ucast (take_bit 4 (drop_bit 1 v))"
    unfolding set_available_def Let_def bit_mask_eq_mask
    by (rule bit_word_eqI) (auto simp add: bit_simps bit_0x1E bit_0xF)
  moreover have "take_bit 11 (drop_bit 52 (set_available e v)) = ucast (drop_bit 5 v)"
    unfolding set_available_def Let_def bit_mask_eq_mask
    by (rule bit_word_eqI) (auto simp add: bit_simps bit_0x1E dest: bit_imp_le_length)
  moreover have "set_available e v AND NOT 0x7FF0000000000F00 = e AND NOT 0x7FF0000000000F00"
    unfolding set_available_def Let_def bit_mask_eq_mask
    by (rule bit_word_eqI)
      (auto simp add: bit_simps bit_0x1E bit_0xF00 bit_available_region dest: bit_imp_le_length)
  ultimately show ?thesis by simp
qed

text \<open>
  C3 as stated fails at the 14-bit value 1 on the cleared entry: the value read back is 0.
\<close>

theorem available_round_trip_counterexample:
  "get_available (set_available 0 1) \<noteq> 1"
  by (simp add: get_available_def set_available_def bit_mask_def)

text \<open>
  C4. \<open>set_addr\<close> writes bits 12 to 47 only: on the cleared entry, the 4 KiB aligned
  address \<open>2^48\<close>, which lies below the 52-bit limit that \<open>addr()\<close> reads, is read back
  as 0; and on an entry whose bit 48 is set, \<open>set_addr(0x2000)\<close> leaves that bit in the
  address that \<open>addr()\<close> returns.
\<close>

theorem set_addr_loses_bits_48_to_51:
  "addr (set_addr 0 0x1000000000000) = 0
   \<and> addr (set_addr 0x1000000000000 0x2000) = 0x1000000002000"
  by (simp add: addr_def set_addr_def bit_mask_def)

text \<open>
  C6. The getter of the ExecutionDisabled flag has no defined result, whatever the entry
  is and whatever was stored: \<open>get_bit(63)\<close> shifts the \<open>int\<close> literal \<open>1\<close> by 63.
\<close>

theorem execution_disabled_getter_undefined:
  "is_execution_disabled (set_execution_disabled e v) = None"
  by (simp add: is_execution_disabled_def get_bit_def shl_int_one_def)


section \<open>Properties of the page bitmap\<close>

lemma shl_int_one_nonzero:
  assumes "shl_int_one n = Some m"
  shows "m \<noteq> 0"
proof -
  from assms have lt: "n < 32" and m: "m = scast (push_bit (unat n) (1 :: 32 word))"
    by (auto simp add: shl_int_one_def split: if_splits)
  from lt have "unat n < 32" by (simp add: word_less_nat_alt)
  then have "bit m (unat n)"
    unfolding m by (simp add: bit_simps)
  then show ?thesis by auto
qed

lemma and_not_absorb:
  fixes x m :: "'a::len word"
  assumes "x AND m = 0"
  shows "x AND NOT m = x" and "(x OR m) AND NOT m = x"
proof -
  have nb: "\<not> (bit x n \<and> bit m n)" for n
  proof -
    have "\<not> bit (x AND m) n" using assms by simp
    then show ?thesis by (simp add: bit_and_iff)
  qed
  show "x AND NOT m = x"
    by (rule bit_word_eqI) (use nb in \<open>auto simp add: bit_simps\<close>)
  show "(x OR m) AND NOT m = x"
    by (rule bit_word_eqI) (use nb in \<open>auto simp add: bit_simps\<close>)
qed


lemma or_and_distrib_nonzero:
  fixes x m k :: "'a::len word"
  assumes "x AND k \<noteq> 0"
  shows "(x OR m) AND k \<noteq> 0"
proof
  assume z: "(x OR m) AND k = 0"
  have "x AND k = 0"
  proof (rule bit_word_eqI)
    fix n assume "n < LENGTH('a)"
    have "\<not> bit ((x OR m) AND k) n" using z by simp
    then show "bit (x AND k) n = bit (0 :: 'a word) n"
      by (auto simp add: bit_simps)
  qed
  with assms show False by simp
qed

lemma PageBitmap_set_length:
  "PageBitmap_set bm i v = Some bm1 \<Longrightarrow> length bm1 = length bm"
  by (auto simp add: PageBitmap_set_def Let_def split: option.splits if_splits)



lemma PageBitmap_get_after_clear:
  "PageBitmap_set bm i False = Some bm1 \<Longrightarrow> PageBitmap_get bm1 i = Some False"
  by (auto simp add: PageBitmap_get_def PageBitmap_set_def Let_def andnot_and_same
      split: option.splits if_splits)

lemma PageBitmap_get_after_set:
  "PageBitmap_set bm i True = Some bm1 \<Longrightarrow> PageBitmap_get bm1 i = Some True"
  by (auto simp add: PageBitmap_get_def PageBitmap_set_def Let_def or_and_same
      dest: shl_int_one_nonzero split: option.splits if_splits)

lemma PageBitmap_set_then_clear:
  "PageBitmap_get bm i = Some False \<Longrightarrow> PageBitmap_set bm i True = Some bm1
   \<Longrightarrow> PageBitmap_set bm1 i False = Some bm"
  by (auto simp add: PageBitmap_get_def PageBitmap_set_def Let_def and_not_absorb
      split: option.splits if_splits)

lemma PageBitmap_set_keeps_allocated:
  assumes "PageBitmap_get bm k = Some True" and "PageBitmap_set bm i True = Some bm1"
  shows "PageBitmap_get bm1 k = Some True"
  using assms
  by (auto simp add: PageBitmap_get_def PageBitmap_set_def Let_def nth_list_update
      or_and_distrib_nonzero split: option.splits if_splits)

lemma PageBitmap_set_defined_iff_get:
  "PageBitmap_set bm i v = None \<longleftrightarrow> PageBitmap_get bm i = None"
  by (auto simp add: PageBitmap_get_def PageBitmap_set_def Let_def split: option.splits if_splits)


lemma find_page_index_None_iff:
  "find_page_index es a i = None \<longleftrightarrow>
     \<not> (\<exists>e\<in>set es. type_e e = USABLE \<and> entry_contains e a)"
  by (induction es arbitrary: i) auto

text \<open>
  When \<open>free_page\<close> halts. With the memory map in place, \<open>free_page(pointer)\<close> reaches
  \<open>halt()\<close> in exactly two cases: the pointer is not a multiple of the page size, or the
  physical address it stands for lies in no usable entry of the memory map (by the test
  the source applies to an entry). In both cases the state at the halt, the bitmap
  included, is the state of the call. In every other case the call is
  \<open>bitmap.set(page_index, false)\<close> for the frame index the loop arrives at: when that
  returns, the bit of that frame reads clear, and when it is undefined, so is the call.
\<close>

lemma free_page_halts_iff:
  assumes "memmap_response s = Some entries"
  shows "((\<exists>s'. free_page s pointer = Halts s') \<longleftrightarrow>
            pointer mod PAGE_SIZE \<noteq> 0
            \<or> \<not> (\<exists>e\<in>set entries. type_e e = USABLE
                     \<and> entry_contains e (virtual_to_physical (hhdm_base s) pointer)))
       \<and> (\<forall>s'. free_page s pointer = Halts s' \<longrightarrow> s' = s)
       \<and> ((\<forall>s'. free_page s pointer \<noteq> Halts s') \<longrightarrow>
            (\<exists>page_index.
               find_page_index entries (virtual_to_physical (hhdm_base s) pointer) 0
                 = Some page_index
               \<and> (case PageBitmap_set (bitmap s) page_index False of
                    None \<Rightarrow> free_page s pointer = UndefinedBehaviour
                  | Some bm \<Rightarrow>
                      free_page s pointer = Returns () (s\<lparr>bitmap := bm\<rparr>)
                      \<and> PageBitmap_get bm page_index = Some False)))"
proof -
  let ?pa = "virtual_to_physical (hhdm_base s) pointer"
  show ?thesis
  proof (cases "pointer mod PAGE_SIZE \<noteq> 0")
    case True
    then have "free_page s pointer = Halts s" by (simp add: free_page_def)
    with True show ?thesis by simp
  next
    case aligned: False
    show ?thesis
    proof (cases "find_page_index entries ?pa 0")
      case None
      then have "free_page s pointer = Halts s"
        using assms aligned by (simp add: free_page_def)
      moreover from None have
        "\<not> (\<exists>e\<in>set entries. type_e e = USABLE \<and> entry_contains e ?pa)"
        by (simp add: find_page_index_None_iff)
      ultimately show ?thesis by simp
    next
      case (Some page_index)
      then have inside: "\<exists>e\<in>set entries. type_e e = USABLE \<and> entry_contains e ?pa"
        using find_page_index_None_iff [of entries ?pa 0] by simp
      show ?thesis
      proof (cases "PageBitmap_set (bitmap s) page_index False")
        case None
        then have "free_page s pointer = UndefinedBehaviour"
          using assms aligned Some by (simp add: free_page_def)
        with None Some inside aligned show ?thesis by simp
      next
        case (Some bm)
        then have "free_page s pointer = Returns () (s\<lparr>bitmap := bm\<rparr>)"
          using assms aligned \<open>find_page_index entries ?pa 0 = Some page_index\<close>
          by (simp add: free_page_def)
        moreover have "PageBitmap_get bm page_index = Some False"
          using Some by (rule PageBitmap_get_after_clear)
        ultimately show ?thesis
          using Some \<open>find_page_index entries ?pa 0 = Some page_index\<close> inside aligned
          by simp
      qed
    qed
  qed
qed



lemma mark_bitmap_pages_keeps:
  "mark_bitmap_pages i n sk bm = Some bm' \<Longrightarrow> PageBitmap_get bm k = Some True
   \<Longrightarrow> PageBitmap_get bm' k = Some True"
proof (induction i n sk bm rule: mark_bitmap_pages.induct)
  case (1 i n sk bm)
  show ?case
  proof (cases "i < n")
    case False
    with "1.prems" show ?thesis by (simp add: mark_bitmap_pages.simps [of i])
  next
    case True
    with "1.prems"(1) obtain bm1 where
      set1: "PageBitmap_set bm (i + sk) True = Some bm1"
      and rest: "mark_bitmap_pages (i + 1) n sk bm1 = Some bm'"
      by (auto simp add: mark_bitmap_pages.simps [of i] split: option.splits)
    have "PageBitmap_get bm1 k = Some True"
      using "1.prems"(2) set1 by (rule PageBitmap_set_keeps_allocated)
    with "1.IH" [OF True set1 rest] show ?thesis .
  qed
qed

lemma mark_bitmap_pages_marks:
  "mark_bitmap_pages i n sk bm = Some bm' \<Longrightarrow> i \<le> j \<Longrightarrow> j < n
   \<Longrightarrow> PageBitmap_get bm' (j + sk) = Some True"
proof (induction i n sk bm rule: mark_bitmap_pages.induct)
  case (1 i n sk bm)
  from "1.prems"(2,3) have lt: "i < n" by simp
  with "1.prems"(1) obtain bm1 where
    set1: "PageBitmap_set bm (i + sk) True = Some bm1"
    and rest: "mark_bitmap_pages (i + 1) n sk bm1 = Some bm'"
    by (auto simp add: mark_bitmap_pages.simps [of i] split: option.splits)
  show ?case
  proof (cases "j = i")
    case True
    have "PageBitmap_get bm1 (i + sk) = Some True"
      using set1 by (rule PageBitmap_get_after_set)
    with rest True show ?thesis by (simp add: mark_bitmap_pages_keeps)
  next
    case False
    with "1.prems"(2) have "i < j" by simp
    then have "i + 1 \<le> j" by (rule inc_le)
    with "1.IH" [OF lt set1 rest] "1.prems"(3) show ?thesis by simp
  qed
qed

lemma scan_entries_skip_unusable:
  "\<forall>x\<in>set pre. type_e x \<noteq> USABLE \<Longrightarrow>
   scan_entries bm (pre @ es) i a = scan_entries bm es i a"
  by (induction pre) simp_all

text \<open>
  C10. \<open>allocate_page\<close> uses the physical address 0 for ``nothing found''. When the
  first usable entry of the memory map starts at physical address 0, holds at least one
  page, and the bit of frame index 0 reads clear, the scan drops that candidate and goes
  on with the entries after it, with \<open>page_index\<close> and \<open>page_address\<close> both still 0;
  and no call of \<open>allocate_page\<close> ever returns the HHDM address of physical address 0.
\<close>

theorem allocate_page_zero_sentinel:
  assumes "memmap_response s = Some (pre @ e # rest)"
    and "\<forall>x\<in>set pre. type_e x \<noteq> USABLE"
    and "type_e e = USABLE" and "base e = 0" and "PAGE_SIZE \<le> length_e e"
    and "PageBitmap_get (bitmap s) 0 = Some False"
  shows "scan_entries (bitmap s) (pre @ e # rest) 0 0 = scan_entries (bitmap s) rest 0 0
       \<and> (\<forall>p s'. allocate_page s = Some (Returns p s') \<longrightarrow>
             p \<noteq> physical_to_virtual (hhdm_base s) 0)"
proof -
  have "scan_entry (bitmap s) e PAGE_SIZE 0 0 = Some (Scanned 0 0)"
    using assms(4,5,6) by (subst scan_entry.simps) simp
  then have "scan_entries (bitmap s) (e # rest) 0 0 = scan_entries (bitmap s) rest 0 0"
    using assms(3) by simp
  then have a: "scan_entries (bitmap s) (pre @ e # rest) 0 0 = scan_entries (bitmap s) rest 0 0"
    using assms(2) by (simp add: scan_entries_skip_unusable)
  have b: "p \<noteq> physical_to_virtual (hhdm_base s) 0"
    if "allocate_page s = Some (Returns p s')" for p s'
    using that assms(1)
    by (auto simp add: allocate_page_def physical_to_virtual_def
        split: option.splits scan.splits if_splits)
  from a b show ?thesis by blast
qed

section \<open>The scan of \<open>allocate_page\<close>\<close>

lemma div_4096_step:
  fixes L S :: nat
  assumes "S \<le> L"
  shows "(L - S) div 4096 = (if S + 4096 \<le> L then (L - (S + 4096)) div 4096 + 1 else 0)"
proof (cases "S + 4096 \<le> L")
  case True
  then have "L - S = (L - (S + 4096)) + 4096" by simp
  then have "(L - S) div 4096 = (L - (S + 4096)) div 4096 + 1"
    by (metis div_add_self2 zero_neq_numeral)
  with True show ?thesis by simp
next
  case False
  with assms have "L - S < 4096" by simp
  with False show ?thesis by simp
qed

lemma scan_entry_result:
  assumes nowrap: "unat (length_e e) + 4096 < 2 ^ 64"
    and n: "n = (if unat sz \<le> unat (length_e e)
                 then (unat (length_e e) - unat sz) div 4096 + 1 else 0)"
  shows "\<exists>r. scan_entry bm e sz pi pa = Some r \<and>
     ((\<exists>j<n. r = ScanUndefined
            \<and> PageBitmap_get bm (pi + of_nat j) = None
            \<and> (\<forall>j'<j. PageBitmap_get bm (pi + of_nat j') = Some True))
      \<or> (\<exists>j<n. r = Scanned (pi + of_nat j) (base e + sz + of_nat j * PAGE_SIZE - PAGE_SIZE)
            \<and> PageBitmap_get bm (pi + of_nat j) = Some False
            \<and> (\<forall>j'<j. PageBitmap_get bm (pi + of_nat j') = Some True))
      \<or> (r = Scanned (pi + of_nat n) pa
            \<and> (\<forall>j'<n. PageBitmap_get bm (pi + of_nat j') = Some True)))"
  using n
proof (induction n arbitrary: sz pi)
  case 0
  then have "\<not> sz \<le> length_e e"
    by (auto simp add: word_le_nat_alt split: if_splits)
  then have "scan_entry bm e sz pi pa = Some (Scanned pi pa)"
    by (subst scan_entry.simps) simp
  then show ?case by simp
next
  case (Suc n)
  then have le: "unat sz \<le> unat (length_e e)"
    and n: "n = (unat (length_e e) - unat sz) div 4096"
    by (auto split: if_splits)
  have szle: "sz \<le> length_e e" using le by (simp add: word_le_nat_alt)
  have usz: "unat (sz + PAGE_SIZE) = unat sz + 4096"
    using le nowrap by (simp add: PAGE_SIZE_def unat_word_ariths)
  show ?case
  proof (cases "PageBitmap_get bm pi")
    case None
    then have "scan_entry bm e sz pi pa = Some ScanUndefined"
      using szle by (subst scan_entry.simps) simp
    moreover have "PageBitmap_get bm (pi + of_nat 0) = None"
      using None by simp
    ultimately have "scan_entry bm e sz pi pa = Some ScanUndefined
        \<and> PageBitmap_get bm (pi + of_nat 0) = None
        \<and> (\<forall>j'<(0::nat). PageBitmap_get bm (pi + of_nat j') = Some True)"
      by simp
    then show ?thesis by blast
  next
    case (Some allocated)
    show ?thesis
    proof (cases allocated)
      case False
      with Some have "scan_entry bm e sz pi pa = Some (Scanned pi (base e + sz - PAGE_SIZE))"
        using szle by (subst scan_entry.simps) simp
      moreover have "PageBitmap_get bm (pi + of_nat 0) = Some False"
        using Some False by simp
      ultimately have "scan_entry bm e sz pi pa
            = Some (Scanned (pi + of_nat 0) (base e + sz + of_nat 0 * PAGE_SIZE - PAGE_SIZE))
          \<and> PageBitmap_get bm (pi + of_nat 0) = Some False
          \<and> (\<forall>j'<(0::nat). PageBitmap_get bm (pi + of_nat j') = Some True)"
        by simp
      then show ?thesis by blast
    next
      case True
      with Some have step: "scan_entry bm e sz pi pa
          = scan_entry bm e (sz + PAGE_SIZE) (pi + 1) pa"
        using szle by (subst scan_entry.simps) simp
      have n': "n = (if unat (sz + PAGE_SIZE) \<le> unat (length_e e)
                 then (unat (length_e e) - unat (sz + PAGE_SIZE)) div 4096 + 1 else 0)"
        unfolding usz n using div_4096_step [OF le] by simp
      from Suc.IH [OF n', of "pi + 1"] obtain r where
        r: "scan_entry bm e (sz + PAGE_SIZE) (pi + 1) pa = Some r"
        and cases: "(\<exists>j<n. r = ScanUndefined
                \<and> PageBitmap_get bm (pi + 1 + of_nat j) = None
                \<and> (\<forall>j'<j. PageBitmap_get bm (pi + 1 + of_nat j') = Some True))
          \<or> (\<exists>j<n. r = Scanned (pi + 1 + of_nat j)
                   (base e + (sz + PAGE_SIZE) + of_nat j * PAGE_SIZE - PAGE_SIZE)
                \<and> PageBitmap_get bm (pi + 1 + of_nat j) = Some False
                \<and> (\<forall>j'<j. PageBitmap_get bm (pi + 1 + of_nat j') = Some True))
          \<or> (r = Scanned (pi + 1 + of_nat n) pa
                \<and> (\<forall>j'<n. PageBitmap_get bm (pi + 1 + of_nat j') = Some True))"
        by blast
      have shift: "pi + 1 + of_nat j = pi + of_nat (Suc j)" for j
        by simp
      have first: "PageBitmap_get bm (pi + of_nat j') = Some True"
        if "j' < Suc j" and "\<forall>j''<j. PageBitmap_get bm (pi + 1 + of_nat j'') = Some True"
        for j j'
      proof (cases j')
        case 0
        with Some True show ?thesis by simp
      next
        case (Suc k)
        with that have "PageBitmap_get bm (pi + 1 + of_nat k) = Some True" by simp
        with Suc show ?thesis by (simp add: shift)
      qed
      from cases consider
        (undef) j where "j < n" "r = ScanUndefined"
            "PageBitmap_get bm (pi + 1 + of_nat j) = None"
            "\<forall>j'<j. PageBitmap_get bm (pi + 1 + of_nat j') = Some True"
        | (found) j where "j < n"
            "r = Scanned (pi + 1 + of_nat j)
                   (base e + (sz + PAGE_SIZE) + of_nat j * PAGE_SIZE - PAGE_SIZE)"
            "PageBitmap_get bm (pi + 1 + of_nat j) = Some False"
            "\<forall>j'<j. PageBitmap_get bm (pi + 1 + of_nat j') = Some True"
        | (exhausted) "r = Scanned (pi + 1 + of_nat n) pa"
            "\<forall>j'<n. PageBitmap_get bm (pi + 1 + of_nat j') = Some True"
        by blast
      then show ?thesis
      proof cases
        case (undef j)
        have "Suc j < Suc n" using undef(1) by simp
        moreover have "scan_entry bm e sz pi pa = Some ScanUndefined"
          using step r undef(2) by simp
        moreover have "PageBitmap_get bm (pi + of_nat (Suc j)) = None"
          using undef(3) shift by simp
        moreover have "\<forall>j'<Suc j. PageBitmap_get bm (pi + of_nat j') = Some True"
          using first undef(4) by blast
        ultimately show ?thesis by blast
      next
        case (found j)
        have addr_eq: "base e + (sz + PAGE_SIZE) + of_nat j * PAGE_SIZE - PAGE_SIZE
            = base e + sz + of_nat (Suc j) * PAGE_SIZE - PAGE_SIZE"
          by (simp add: algebra_simps)
        have "Suc j < Suc n" using found(1) by simp
        moreover have "scan_entry bm e sz pi pa
            = Some (Scanned (pi + of_nat (Suc j))
                 (base e + sz + of_nat (Suc j) * PAGE_SIZE - PAGE_SIZE))"
          using step r found(2) addr_eq shift by simp
        moreover have "PageBitmap_get bm (pi + of_nat (Suc j)) = Some False"
          using found(3) shift by simp
        moreover have "\<forall>j'<Suc j. PageBitmap_get bm (pi + of_nat j') = Some True"
          using first found(4) by blast
        ultimately show ?thesis by blast
      next
        case exhausted
        have "scan_entry bm e sz pi pa = Some (Scanned (pi + of_nat (Suc n)) pa)"
          using step r exhausted(1) shift by simp
        moreover have "\<forall>j'<Suc n. PageBitmap_get bm (pi + of_nat j') = Some True"
          using first exhausted(2) by blast
        ultimately show ?thesis by blast
      qed
    qed
  qed
qed

text \<open>
  First fit within an entry: when the bits of the first \<open>k\<close> frames read set, the bit of
  the next reads clear and the entry has more than \<open>k\<close> pages, the loop stops at that frame.
\<close>

lemma scan_entry_first_fit:
  assumes nowrap: "unat (length_e e) + 4096 < 2 ^ 64"
    and k: "k < unat (length_e e) div 4096"
    and before: "\<forall>j<k. PageBitmap_get bm (pi + of_nat j) = Some True"
    and at: "PageBitmap_get bm (pi + of_nat k) = Some False"
  shows "scan_entry bm e PAGE_SIZE pi pa
      = Some (Scanned (pi + of_nat k) (base e + of_nat k * PAGE_SIZE))"
proof -
  let ?n = "unat (length_e e) div 4096"
  have n: "?n = (if unat PAGE_SIZE \<le> unat (length_e e)
         then (unat (length_e e) - unat PAGE_SIZE) div 4096 + 1 else 0)"
    by (simp add: PAGE_SIZE_def le_div_geq)
  from scan_entry_result [OF nowrap n, of bm pi pa] obtain r where
    r: "scan_entry bm e PAGE_SIZE pi pa = Some r"
    and cases: "(\<exists>j<?n. r = ScanUndefined
            \<and> PageBitmap_get bm (pi + of_nat j) = None
            \<and> (\<forall>j'<j. PageBitmap_get bm (pi + of_nat j') = Some True))
      \<or> (\<exists>j<?n. r = Scanned (pi + of_nat j)
               (base e + PAGE_SIZE + of_nat j * PAGE_SIZE - PAGE_SIZE)
            \<and> PageBitmap_get bm (pi + of_nat j) = Some False
            \<and> (\<forall>j'<j. PageBitmap_get bm (pi + of_nat j') = Some True))
      \<or> (r = Scanned (pi + of_nat ?n) pa
            \<and> (\<forall>j'<?n. PageBitmap_get bm (pi + of_nat j') = Some True))"
    by blast
  from cases consider
    (undef) j where "PageBitmap_get bm (pi + of_nat j) = None"
        "\<forall>j'<j. PageBitmap_get bm (pi + of_nat j') = Some True"
    | (found) j where
        "r = Scanned (pi + of_nat j) (base e + PAGE_SIZE + of_nat j * PAGE_SIZE - PAGE_SIZE)"
        "PageBitmap_get bm (pi + of_nat j) = Some False"
        "\<forall>j'<j. PageBitmap_get bm (pi + of_nat j') = Some True"
    | (exhausted) "\<forall>j'<?n. PageBitmap_get bm (pi + of_nat j') = Some True"
    by blast
  then show ?thesis
  proof cases
    case (undef j)
    then show ?thesis
      using before at by (cases j k rule: linorder_cases) auto
  next
    case (found j)
    have "j = k"
      using found(2,3) before at by (cases j k rule: linorder_cases) auto
    with r found(1) show ?thesis by simp
  next
    case exhausted
    with k at show ?thesis by auto
  qed
qed

lemma usable_regions_ok_entry:
  "usable_regions_ok es \<Longrightarrow> e \<in> set es \<Longrightarrow> type_e e = USABLE \<Longrightarrow> entry_ok e"
  by (induction es) auto

lemma unat_PAGE_SIZE: "unat PAGE_SIZE = 4096"
  by (simp add: PAGE_SIZE_def)

lemma entry_ok_base_ge:
  assumes "entry_ok e"
  shows "4096 \<le> unat (base e)"
proof -
  from assms have nz: "base e \<noteq> 0" and al: "base e mod PAGE_SIZE = 0"
    by (simp_all add: entry_ok_def)
  from al have "unat (base e mod PAGE_SIZE) = 0" by simp
  then have "unat (base e) mod 4096 = 0" by (simp add: unat_mod unat_PAGE_SIZE)
  moreover from nz have "unat (base e) \<noteq> 0" by (simp add: unat_eq_0)
  ultimately show ?thesis by (metis mod_less not_le_imp_less)
qed

lemma entry_contains_nat:
  assumes "unat (base e) + unat (length_e e) < 2 ^ 64"
  shows "entry_contains e a \<longleftrightarrow>
     unat (base e) \<le> unat a \<and> unat a < unat (base e) + unat (length_e e)"
proof -
  have "unat (base e + length_e e) = unat (base e) + unat (length_e e)"
    using assms by (simp add: unat_add_lem [THEN iffD1])
  then show ?thesis
    by (simp add: entry_contains_def word_le_nat_alt word_less_nat_alt)
qed

lemma frame_address:
  assumes ok: "entry_ok e" and j: "j < unat (length_e e) div 4096"
  shows "unat (base e + of_nat j * PAGE_SIZE) = unat (base e) + j * 4096"
    and "base e + of_nat j * PAGE_SIZE \<noteq> 0"
    and "entry_contains e (base e + of_nat j * PAGE_SIZE)"
    and "(base e + of_nat j * PAGE_SIZE - base e) div PAGE_SIZE = of_nat j"
    and "(base e + of_nat j * PAGE_SIZE) mod PAGE_SIZE = 0"
proof -
  from ok have nowrap: "unat (base e) + unat (length_e e) < 2 ^ 64"
    and al: "base e mod PAGE_SIZE = 0"
    by (simp_all add: entry_ok_def)
  have j4: "j * 4096 + 4096 \<le> unat (length_e e)"
  proof -
    from j have "Suc j \<le> unat (length_e e) div 4096" by simp
    then have "Suc j * 4096 \<le> unat (length_e e) div 4096 * 4096"
      by (rule mult_le_mono1)
    also have "\<dots> \<le> unat (length_e e)" by simp
    finally show ?thesis by simp
  qed
  then have jlt: "j * 4096 < 2 ^ 64" and j64: "j < 2 ^ 64"
    using nowrap by simp_all
  have uj: "unat (of_nat j :: u64) = j"
    using j64 by (simp add: unat_of_nat)
  have um: "unat (of_nat j * PAGE_SIZE :: u64) = j * 4096"
    using jlt uj unat_mult_lem [of "of_nat j :: u64" PAGE_SIZE]
    by (simp add: unat_PAGE_SIZE)
  show ua: "unat (base e + of_nat j * PAGE_SIZE) = unat (base e) + j * 4096"
    using um nowrap j4 unat_add_lem [of "base e" "of_nat j * PAGE_SIZE"]
    by simp
  from entry_ok_base_ge [OF ok] ua
  have "unat (base e + of_nat j * PAGE_SIZE) \<noteq> 0" by simp
  then show "base e + of_nat j * PAGE_SIZE \<noteq> 0" by (simp add: unat_eq_0)
  show "entry_contains e (base e + of_nat j * PAGE_SIZE)"
    using ua j4 by (simp add: entry_contains_nat [OF nowrap])
  have "unat ((of_nat j * PAGE_SIZE :: u64) div PAGE_SIZE) = unat (of_nat j :: u64)"
    by (simp add: unat_div um uj unat_PAGE_SIZE)
  then have "(of_nat j * PAGE_SIZE :: u64) div PAGE_SIZE = of_nat j"
    by (simp only: word_unat_eq_iff)
  then show "(base e + of_nat j * PAGE_SIZE - base e) div PAGE_SIZE = of_nat j"
    by simp
  from al have "unat (base e) mod 4096 = 0"
    by (metis unat_mod unat_PAGE_SIZE unat_0)
  then have "unat ((base e + of_nat j * PAGE_SIZE) mod PAGE_SIZE) = 0"
    by (simp add: unat_mod ua unat_PAGE_SIZE)
  then show "(base e + of_nat j * PAGE_SIZE) mod PAGE_SIZE = 0"
    by (simp add: unat_eq_0)
qed

lemma scan_entry_from_start:
  assumes ok: "entry_ok e"
  shows "\<exists>r. scan_entry bm e PAGE_SIZE pi pa = Some r \<and>
     ((\<exists>j<unat (length_e e) div 4096. r = ScanUndefined
            \<and> PageBitmap_get bm (pi + of_nat j) = None
            \<and> (\<forall>j'<j. PageBitmap_get bm (pi + of_nat j') = Some True))
      \<or> (\<exists>j<unat (length_e e) div 4096.
            r = Scanned (pi + of_nat j) (base e + of_nat j * PAGE_SIZE)
            \<and> PageBitmap_get bm (pi + of_nat j) = Some False
            \<and> (\<forall>j'<j. PageBitmap_get bm (pi + of_nat j') = Some True))
      \<or> (r = Scanned (pi + length_e e div PAGE_SIZE) pa
            \<and> (\<forall>j'<unat (length_e e) div 4096.
                  PageBitmap_get bm (pi + of_nat j') = Some True)))"
proof -
  from ok entry_ok_base_ge [OF ok]
  have nowrap: "unat (length_e e) + 4096 < 2 ^ 64"
    by (simp add: entry_ok_def)
  have n: "unat (length_e e) div 4096
      = (if unat PAGE_SIZE \<le> unat (length_e e)
         then (unat (length_e e) - unat PAGE_SIZE) div 4096 + 1 else 0)"
    by (simp add: unat_PAGE_SIZE le_div_geq)
  have npages: "(of_nat (unat (length_e e) div 4096) :: u64) = length_e e div PAGE_SIZE"
    by (simp add: word_arith_nat_div unat_PAGE_SIZE)
  have addr_eq: "base e + PAGE_SIZE + of_nat j * PAGE_SIZE - PAGE_SIZE
      = base e + of_nat j * PAGE_SIZE" for j
    by simp
  from scan_entry_result [OF nowrap n, of bm pi pa]
  show ?thesis
    unfolding addr_eq npages .
qed

lemma find_page_index_Some_contained:
  "find_page_index es a i = Some idx \<Longrightarrow>
   \<exists>e\<in>set es. type_e e = USABLE \<and> entry_contains e a"
  using find_page_index_None_iff [of es a i] by auto

lemma disjoint_not_contains:
  assumes "entry_ok e" and "entry_ok e'" and "regions_disjoint e e'"
    and "entry_contains e' a"
  shows "\<not> entry_contains e a"
proof -
  from assms(1,2) have
    "unat (base e) + unat (length_e e) < 2 ^ 64" "unat (base e') + unat (length_e e') < 2 ^ 64"
    by (simp_all add: entry_ok_def)
  with assms(3,4) show ?thesis
    by (auto simp add: entry_contains_nat regions_disjoint_def)
qed

lemma scan_entries_found:
  assumes "usable_regions_ok es"
    and "scan_entries bm es i0 0 = Some (Scanned idx pa)" and "pa \<noteq> 0"
  shows "find_page_index es pa i0 = Some idx \<and> PageBitmap_get bm idx = Some False
         \<and> pa mod PAGE_SIZE = 0"
  using assms
proof (induction es arbitrary: i0)
  case Nil
  then show ?case by simp
next
  case (Cons e es)
  from Cons.prems(1) have ok_es: "usable_regions_ok es" by simp
  show ?case
  proof (cases "type_e e = USABLE")
    case False
    with Cons.prems have "scan_entries bm es i0 0 = Some (Scanned idx pa)" by simp
    from Cons.IH [OF ok_es this Cons.prems(3)] False show ?thesis by simp
  next
    case True
    with Cons.prems(1) have ok: "entry_ok e"
      and disj: "\<forall>e'\<in>set es. type_e e' = USABLE \<longrightarrow> regions_disjoint e e'"
      by simp_all
    from scan_entry_from_start [OF ok, of bm i0 0] obtain r where
      r: "scan_entry bm e PAGE_SIZE i0 0 = Some r"
      and cases: "(\<exists>j<unat (length_e e) div 4096. r = ScanUndefined
              \<and> PageBitmap_get bm (i0 + of_nat j) = None
              \<and> (\<forall>j'<j. PageBitmap_get bm (i0 + of_nat j') = Some True))
        \<or> (\<exists>j<unat (length_e e) div 4096.
              r = Scanned (i0 + of_nat j) (base e + of_nat j * PAGE_SIZE)
              \<and> PageBitmap_get bm (i0 + of_nat j) = Some False
              \<and> (\<forall>j'<j. PageBitmap_get bm (i0 + of_nat j') = Some True))
        \<or> (r = Scanned (i0 + length_e e div PAGE_SIZE) 0
              \<and> (\<forall>j'<unat (length_e e) div 4096.
                    PageBitmap_get bm (i0 + of_nat j') = Some True))"
      by blast
    from cases consider
      (undef) "r = ScanUndefined"
      | (found) j where "j < unat (length_e e) div 4096"
          "r = Scanned (i0 + of_nat j) (base e + of_nat j * PAGE_SIZE)"
          "PageBitmap_get bm (i0 + of_nat j) = Some False"
      | (exhausted) "r = Scanned (i0 + length_e e div PAGE_SIZE) 0"
      by blast
    then show ?thesis
    proof cases
      case undef
      with r True Cons.prems(2) show ?thesis by simp
    next
      case (found j)
      note fa = frame_address [OF ok found(1)]
      from r True found(2) fa(2) Cons.prems(2)
      have idx: "idx = i0 + of_nat j" and pa: "pa = base e + of_nat j * PAGE_SIZE"
        by simp_all
      have "find_page_index (e # es) pa i0 = Some idx"
        using True fa(3,4) unfolding idx pa by simp
      with found(3) fa(5) idx pa show ?thesis by simp
    next
      case exhausted
      with r True Cons.prems(2)
      have rest: "scan_entries bm es (i0 + length_e e div PAGE_SIZE) 0 = Some (Scanned idx pa)"
        by simp
      from Cons.IH [OF ok_es rest Cons.prems(3)]
      have ih: "find_page_index es pa (i0 + length_e e div PAGE_SIZE) = Some idx"
        and rest_facts: "PageBitmap_get bm idx = Some False" "pa mod PAGE_SIZE = 0"
        by simp_all
      from find_page_index_Some_contained [OF ih] obtain e' where
        e': "e' \<in> set es" "type_e e' = USABLE" "entry_contains e' pa"
        by blast
      from usable_regions_ok_entry [OF ok_es e'(1,2)] have ok': "entry_ok e'" .
      from disj e'(1,2) have "regions_disjoint e e'" by simp
      from disjoint_not_contains [OF ok ok' this e'(3)]
      have "\<not> entry_contains e pa" .
      with True ih rest_facts show ?thesis by simp
    qed
  qed
qed

lemma scan_entries_first_fit:
  assumes "usable_regions_ok es"
    and "scan_entries bm es i0 0 = Some (Scanned idx pa)" and "pa \<noteq> 0"
  shows "\<exists>M. idx = i0 + of_nat M
           \<and> (\<forall>m<M. PageBitmap_get bm (i0 + of_nat m) = Some True)"
  using assms
proof (induction es arbitrary: i0)
  case Nil
  then show ?case by simp
next
  case (Cons e es)
  from Cons.prems(1) have ok_es: "usable_regions_ok es" by simp
  show ?case
  proof (cases "type_e e = USABLE")
    case False
    with Cons.prems have "scan_entries bm es i0 0 = Some (Scanned idx pa)" by simp
    from Cons.IH [OF ok_es this Cons.prems(3)] show ?thesis .
  next
    case True
    with Cons.prems(1) have ok: "entry_ok e" by simp
    let ?n = "unat (length_e e) div 4096"
    have npages: "(of_nat ?n :: u64) = length_e e div PAGE_SIZE"
      by (simp add: word_arith_nat_div unat_PAGE_SIZE)
    from scan_entry_from_start [OF ok, of bm i0 0] obtain r where
      r: "scan_entry bm e PAGE_SIZE i0 0 = Some r"
      and cases: "(\<exists>j<?n. r = ScanUndefined
              \<and> PageBitmap_get bm (i0 + of_nat j) = None
              \<and> (\<forall>j'<j. PageBitmap_get bm (i0 + of_nat j') = Some True))
        \<or> (\<exists>j<?n.
              r = Scanned (i0 + of_nat j) (base e + of_nat j * PAGE_SIZE)
              \<and> PageBitmap_get bm (i0 + of_nat j) = Some False
              \<and> (\<forall>j'<j. PageBitmap_get bm (i0 + of_nat j') = Some True))
        \<or> (r = Scanned (i0 + length_e e div PAGE_SIZE) 0
              \<and> (\<forall>j'<?n. PageBitmap_get bm (i0 + of_nat j') = Some True))"
      by blast
    from cases consider
      (undef) "r = ScanUndefined"
      | (found) j where "j < ?n"
          "r = Scanned (i0 + of_nat j) (base e + of_nat j * PAGE_SIZE)"
          "\<forall>j'<j. PageBitmap_get bm (i0 + of_nat j') = Some True"
      | (exhausted) "r = Scanned (i0 + length_e e div PAGE_SIZE) 0"
          "\<forall>j'<?n. PageBitmap_get bm (i0 + of_nat j') = Some True"
      by blast
    then show ?thesis
    proof cases
      case undef
      with r True Cons.prems(2) show ?thesis by simp
    next
      case (found j)
      from r True found(2) frame_address(2) [OF ok found(1)] Cons.prems(2)
      have "idx = i0 + of_nat j" by simp
      with found(3) show ?thesis by blast
    next
      case exhausted
      with r True Cons.prems(2)
      have rest: "scan_entries bm es (i0 + length_e e div PAGE_SIZE) 0 = Some (Scanned idx pa)"
        by simp
      from Cons.IH [OF ok_es rest Cons.prems(3)] obtain M where
        idx: "idx = i0 + length_e e div PAGE_SIZE + of_nat M"
        and before: "\<forall>m<M. PageBitmap_get bm (i0 + length_e e div PAGE_SIZE + of_nat m) = Some True"
        by blast
      have "idx = i0 + of_nat (?n + M)"
        using idx npages by simp
      moreover have "PageBitmap_get bm (i0 + of_nat m) = Some True" if "m < ?n + M" for m
      proof (cases "m < ?n")
        case True
        with exhausted(2) show ?thesis by simp
      next
        case False
        then obtain m' where m: "m = ?n + m'" by (metis le_add_diff_inverse not_less)
        with that have "m' < M" by simp
        from before [rule_format, OF this]
        have "PageBitmap_get bm (i0 + length_e e div PAGE_SIZE + of_nat m') = Some True" .
        moreover have "i0 + length_e e div PAGE_SIZE + of_nat m' = i0 + of_nat m"
          unfolding m npages [symmetric] by simp
        ultimately show ?thesis by simp
      qed
      ultimately show ?thesis by blast
    qed
  qed
qed

text \<open>
  C7. In an initialized allocator state, the memory map being as the boot protocol
  guarantees it (\<open>usable_regions_ok\<close>) and the HHDM base page-aligned: when
  \<open>allocate_page\<close> returns a pointer, \<open>free_page\<close> called with it next returns and
  restores the state, the whole bitmap and with it the number of free frames, to what it
  was before the allocation; the next \<open>allocate_page\<close> then returns the very same frame
  again. The frame handed out is the first fit: its bit read clear, the bits of all
  frames of lower index read set, and its bit is the one the allocation set.
\<close>

theorem allocate_then_free_restores:
  assumes "memmap_response s = Some entries" and "usable_regions_ok entries"
    and "hhdm_base s mod PAGE_SIZE = 0"
    and "allocate_page s = Some (Returns pointer s1)"
  shows "free_page s1 pointer = Returns () s
       \<and> (\<forall>s2. free_page s1 pointer = Returns () s2 \<longrightarrow>
             bitmap s2 = bitmap s \<and> allocate_page s2 = Some (Returns pointer s1))
       \<and> (\<exists>M. PageBitmap_get (bitmap s) (of_nat M) = Some False
               \<and> (\<forall>m<M. PageBitmap_get (bitmap s) (of_nat m) = Some True)
               \<and> PageBitmap_set (bitmap s) (of_nat M) True = Some (bitmap s1))"
proof -
  from assms(1,4) obtain idx pa bm1 where
    scan: "scan_entries (bitmap s) entries 0 0 = Some (Scanned idx pa)"
    and pa: "pa \<noteq> 0"
    and set1: "PageBitmap_set (bitmap s) idx True = Some bm1"
    and ptr: "pointer = physical_to_virtual (hhdm_base s) pa"
    and s1: "s1 = s\<lparr>bitmap := bm1\<rparr>"
    by (auto simp add: allocate_page_def split: option.splits scan.splits if_splits)
  from scan_entries_found [OF assms(2) scan pa]
  have idx: "find_page_index entries pa 0 = Some idx"
    and clear: "PageBitmap_get (bitmap s) idx = Some False"
    and al: "pa mod PAGE_SIZE = 0"
    by simp_all
  from scan_entries_first_fit [OF assms(2) scan pa] obtain M where
    M: "idx = of_nat M" "\<forall>m<M. PageBitmap_get (bitmap s) (of_nat m) = Some True"
    by auto
  have v2p: "virtual_to_physical (hhdm_base s) pointer = pa"
    by (simp add: ptr physical_to_virtual_def virtual_to_physical_def)
  have "unat (pointer mod PAGE_SIZE) = 0"
  proof -
    from al have "unat pa mod 4096 = 0" by (metis unat_mod unat_PAGE_SIZE unat_0)
    moreover from assms(3) have "unat (hhdm_base s) mod 4096 = 0"
      by (metis unat_mod unat_PAGE_SIZE unat_0)
    ultimately have "(unat pa + unat (hhdm_base s)) mod 4096 = 0"
      by (simp add: mod_add_eq [symmetric] del: mod_add_eq)
    moreover have "unat pointer = (unat pa + unat (hhdm_base s)) mod 2 ^ 64"
      by (simp add: ptr physical_to_virtual_def unat_word_ariths)
    moreover have "((unat pa + unat (hhdm_base s)) mod 2 ^ 64) mod 4096
        = (unat pa + unat (hhdm_base s)) mod 4096"
      by (rule mod_mod_cancel) simp
    ultimately show ?thesis by (simp add: unat_mod unat_PAGE_SIZE)
  qed
  then have aligned: "pointer mod PAGE_SIZE = 0" by (simp add: unat_eq_0)
  have restored: "PageBitmap_set bm1 idx False = Some (bitmap s)"
    using clear set1 by (rule PageBitmap_set_then_clear)
  have freed: "free_page s1 pointer = Returns () s"
    using assms(1) aligned v2p idx restored s1 by (simp add: free_page_def)
  have first_fit: "\<exists>M. PageBitmap_get (bitmap s) (of_nat M) = Some False
               \<and> (\<forall>m<M. PageBitmap_get (bitmap s) (of_nat m) = Some True)
               \<and> PageBitmap_set (bitmap s) (of_nat M) True = Some (bitmap s1)"
    using M clear set1 s1 by auto
  from freed assms(4) first_fit show ?thesis by simp
qed

section \<open>The frames that hold the bitmap\<close>

lemma aligned_add:
  fixes a b :: u64
  assumes "a mod PAGE_SIZE = 0" and "b mod PAGE_SIZE = 0"
  shows "(a + b) mod PAGE_SIZE = 0"
proof -
  from assms have "unat a mod 4096 = 0" "unat b mod 4096 = 0"
    by (metis unat_mod unat_PAGE_SIZE unat_0)+
  then have "(unat a + unat b) mod 4096 = 0"
    by (simp add: mod_add_eq [symmetric] del: mod_add_eq)
  moreover have "unat (a + b) = (unat a + unat b) mod 2 ^ 64"
    by (simp add: unat_word_ariths)
  moreover have "((unat a + unat b) mod 2 ^ 64) mod 4096 = (unat a + unat b) mod 4096"
    by (rule mod_mod_cancel) simp
  ultimately have "unat ((a + b) mod PAGE_SIZE) = 0"
    by (simp add: unat_mod unat_PAGE_SIZE)
  then show ?thesis by (simp add: unat_eq_0)
qed

lemma find_bitmap_space_frames:
  assumes "usable_regions_ok es"
    and "find_bitmap_space h sz es sk0 = (a, sk)" and "a \<noteq> 0"
  shows "\<exists>e d. e \<in> set es \<and> type_e e = USABLE \<and> entry_ok e \<and> sz \<le> length_e e
           \<and> a = physical_to_virtual h (base e) \<and> sk = sk0 + d
           \<and> (\<forall>i0 j. j < unat (length_e e) div 4096 \<longrightarrow>
                 find_page_index es (base e + of_nat j * PAGE_SIZE) i0
                   = Some (i0 + d + of_nat j))"
  using assms
proof (induction es arbitrary: sk0)
  case Nil
  then show ?case by simp
next
  case (Cons e es)
  from Cons.prems(1) have ok_es: "usable_regions_ok es" by simp
  show ?case
  proof (cases "type_e e = USABLE")
    case False
    with Cons.prems(2) have "find_bitmap_space h sz es sk0 = (a, sk)" by simp
    from Cons.IH [OF ok_es this Cons.prems(3)] obtain e' d where
      e': "e' \<in> set es" "type_e e' = USABLE" "entry_ok e'" "sz \<le> length_e e'"
        "a = physical_to_virtual h (base e')" "sk = sk0 + d"
      and idx: "\<forall>i0 j. j < unat (length_e e') div 4096 \<longrightarrow>
                 find_page_index es (base e' + of_nat j * PAGE_SIZE) i0
                   = Some (i0 + d + of_nat j)"
      by blast
    from idx False have "\<forall>i0 j. j < unat (length_e e') div 4096 \<longrightarrow>
                 find_page_index (e # es) (base e' + of_nat j * PAGE_SIZE) i0
                   = Some (i0 + d + of_nat j)"
      by simp
    with e' show ?thesis by (intro exI [of _ e'] exI [of _ d]) simp
  next
    case True
    with Cons.prems(1) have ok: "entry_ok e"
      and disj: "\<forall>e'\<in>set es. type_e e' = USABLE \<longrightarrow> regions_disjoint e e'"
      by simp_all
    show ?thesis
    proof (cases "sz \<le> length_e e")
      case fits: True
      with True Cons.prems(2) have a: "a = physical_to_virtual h (base e)" and sk: "sk = sk0 + 0"
        by simp_all
      have "find_page_index (e # es) (base e + of_nat j * PAGE_SIZE) i0
                   = Some (i0 + 0 + of_nat j)"
        if "j < unat (length_e e) div 4096" for i0 j
        using True frame_address(3,4) [OF ok that] by simp
      with True ok fits a sk show ?thesis
        by (intro exI [of _ e] exI [of _ 0]) simp
    next
      case small: False
      with True Cons.prems(2)
      have "find_bitmap_space h sz es (sk0 + length_e e div PAGE_SIZE) = (a, sk)" by simp
      from Cons.IH [OF ok_es this Cons.prems(3)] obtain e' d where
        e': "e' \<in> set es" "type_e e' = USABLE" "entry_ok e'" "sz \<le> length_e e'"
          "a = physical_to_virtual h (base e')"
        and sk: "sk = sk0 + length_e e div PAGE_SIZE + d"
        and idx: "\<forall>i0 j. j < unat (length_e e') div 4096 \<longrightarrow>
                   find_page_index es (base e' + of_nat j * PAGE_SIZE) i0
                     = Some (i0 + d + of_nat j)"
        by blast
      from disj e'(1,2) have rd: "regions_disjoint e e'" by simp
      have "find_page_index (e # es) (base e' + of_nat j * PAGE_SIZE) i0
                     = Some (i0 + (length_e e div PAGE_SIZE + d) + of_nat j)"
        if j: "j < unat (length_e e') div 4096" for i0 j
      proof -
        from frame_address(3) [OF e'(3) j]
        have "entry_contains e' (base e' + of_nat j * PAGE_SIZE)" .
        from disjoint_not_contains [OF ok e'(3) rd this]
        have "\<not> entry_contains e (base e' + of_nat j * PAGE_SIZE)" .
        with True idx j show ?thesis by (simp add: add.assoc)
      qed
      with e' sk show ?thesis
        by (intro exI [of _ e'] exI [of _ "length_e e div PAGE_SIZE + d"]) (simp add: add.assoc)
    qed
  qed
qed

lemma div_ceil_pages_fit:
  assumes "sz \<le> len" and "len mod PAGE_SIZE = 0" and "i < div_ceil sz PAGE_SIZE"
  shows "unat i < unat len div 4096"
proof -
  let ?A = "unat sz" and ?L = "unat len"
  from assms(1) have le: "?A \<le> ?L" by (simp add: word_le_nat_alt)
  from assms(2) have lm: "?L mod 4096 = 0" by (metis unat_mod unat_PAGE_SIZE unat_0)
  have q: "unat (sz div PAGE_SIZE) = ?A div 4096" by (simp add: unat_div unat_PAGE_SIZE)
  have "?A div 4096 < 2 ^ 52"
    using unsigned_less [of sz] by (simp add: div_less_iff_less_mult)
  have dc: "unat (div_ceil sz PAGE_SIZE) \<le> ?A div 4096 + (if ?A mod 4096 = 0 then 0 else 1)"
  proof (cases "sz mod PAGE_SIZE = 0")
    case True
    then show ?thesis by (simp add: div_ceil_def q)
  next
    case False
    then have "unat (sz mod PAGE_SIZE) \<noteq> 0" by (simp add: unat_eq_0)
    then have nz: "?A mod 4096 \<noteq> 0" by (simp add: unat_mod unat_PAGE_SIZE)
    have "unat (sz div PAGE_SIZE + 1) \<le> unat (sz div PAGE_SIZE) + unat (1 :: u64)"
      by (simp add: unat_word_ariths)
    with False nz show ?thesis by (simp add: div_ceil_def q)
  qed
  have "?A div 4096 + (if ?A mod 4096 = 0 then 0 else 1) \<le> ?L div 4096"
  proof (cases "?A mod 4096 = 0")
    case True
    with le show ?thesis by (simp add: div_le_mono)
  next
    case False
    from lm obtain k where k: "?L = 4096 * k" by (auto simp add: mod_eq_0_iff_dvd)
    with le False have "?A < 4096 * k" by (cases "?A = 4096 * k") auto
    then have "?A div 4096 < k" by (simp add: div_less_iff_less_mult mult.commute)
    with False k show ?thesis by simp
  qed
  with dc have "unat (div_ceil sz PAGE_SIZE) \<le> ?L div 4096" by simp
  moreover from assms(3) have "unat i < unat (div_ceil sz PAGE_SIZE)"
    by (simp add: word_less_nat_alt)
  ultimately show ?thesis by simp
qed

text \<open>
  C2 (as amended). For a memory map as the boot protocol guarantees it
  (\<open>usable_regions_ok\<close>, usable lengths page-aligned) and a page-aligned HHDM offset:
  after \<open>init()\<close> has returned, every frame backing the bitmap's own storage, the
  \<open>i\<close>-th page from \<open>bitmap_array_addr\<close> for \<open>i < bitmap_page_size\<close>, is the frame
  that \<open>free_page\<close> resolves to index \<open>skipped_pages + i\<close>, and its bit reads set.
  \<open>free_page\<close> called with the page-aligned HHDM address of any of these frames is not
  rejected: it returns normally, having cleared that frame's bit.
\<close>

theorem init_marks_bitmap_frames:
  assumes "init s0 = Returns () s"
    and "memmap_response s0 = Some entries" and "hhdm_response s0 = Some offset"
    and "usable_regions_ok entries"
    and "\<forall>e\<in>set entries. type_e e = USABLE \<longrightarrow> length_e e mod PAGE_SIZE = 0"
    and "offset mod PAGE_SIZE = 0"
    and "i < bitmap_page_size entries"
  shows "find_page_index entries
           (virtual_to_physical (hhdm_base s)
              (fst (find_bitmap_space offset (bitmap_array_size entries) entries 0)
                 + i * PAGE_SIZE)) 0
           = Some (snd (find_bitmap_space offset (bitmap_array_size entries) entries 0) + i)
       \<and> PageBitmap_get (bitmap s)
           (snd (find_bitmap_space offset (bitmap_array_size entries) entries 0) + i)
           = Some True
       \<and> (fst (find_bitmap_space offset (bitmap_array_size entries) entries 0)
             + i * PAGE_SIZE) mod PAGE_SIZE = 0
       \<and> (\<exists>bm. free_page s
                  (fst (find_bitmap_space offset (bitmap_array_size entries) entries 0)
                     + i * PAGE_SIZE)
                = Returns () (s\<lparr>bitmap := bm\<rparr>)
              \<and> PageBitmap_set (bitmap s)
                   (snd (find_bitmap_space offset (bitmap_array_size entries) entries 0) + i)
                   False = Some bm
              \<and> PageBitmap_get bm
                   (snd (find_bitmap_space offset (bitmap_array_size entries) entries 0) + i)
                  = Some False)"
proof -
  let ?sz = "bitmap_array_size entries"
  obtain a sk where fs: "find_bitmap_space offset ?sz entries 0 = (a, sk)"
    by (cases "find_bitmap_space offset ?sz entries 0")
  from assms(1,2,3) fs obtain bm0 where
    a: "a \<noteq> 0"
    and mark: "mark_bitmap_pages 0 (bitmap_page_size entries) sk (PageBitmap_cleared ?sz)
                 = Some bm0"
    and s: "s = s0\<lparr>hhdm_base := offset, bitmap := bm0\<rparr>"
    by (auto simp add: init_def Let_def split: option.splits if_splits)
  from find_bitmap_space_frames [OF assms(4) fs a] obtain e d where
    e: "e \<in> set entries" "type_e e = USABLE" "entry_ok e" "?sz \<le> length_e e"
    and a_eq: "a = physical_to_virtual offset (base e)" and sk: "sk = d"
    and idx: "\<forall>i0 j. j < unat (length_e e) div 4096 \<longrightarrow>
               find_page_index entries (base e + of_nat j * PAGE_SIZE) i0
                 = Some (i0 + d + of_nat j)"
    by auto
  from assms(5) e(1,2) have lm: "length_e e mod PAGE_SIZE = 0" by simp
  from assms(7) have "i < div_ceil ?sz PAGE_SIZE" by (simp add: bitmap_page_size_def)
  from div_ceil_pages_fit [OF e(4) lm this]
  have j: "unat i < unat (length_e e) div 4096" .
  let ?pointer = "a + i * PAGE_SIZE"
  let ?pa = "base e + i * PAGE_SIZE"
  have v2p: "virtual_to_physical (hhdm_base s) ?pointer = ?pa"
    by (simp add: s a_eq physical_to_virtual_def virtual_to_physical_def)
  from idx [rule_format, OF j, of 0]
  have lookup: "find_page_index entries ?pa 0 = Some (sk + i)"
    by (simp add: sk)
  have marked: "PageBitmap_get (bitmap s) (sk + i) = Some True"
    using mark_bitmap_pages_marks [OF mark _ assms(7)] s by (simp add: add.commute)
  from frame_address(5) [OF e(3) j] have "?pa mod PAGE_SIZE = 0" by simp
  from aligned_add [OF this assms(6)]
  have aligned: "?pointer mod PAGE_SIZE = 0"
    by (simp add: a_eq physical_to_virtual_def add.commute add.left_commute)
  from marked have "PageBitmap_set (bitmap s) (sk + i) False \<noteq> None"
    by (simp add: PageBitmap_set_defined_iff_get)
  then obtain bm where bm: "PageBitmap_set (bitmap s) (sk + i) False = Some bm" by auto
  have freed: "free_page s ?pointer = Returns () (s\<lparr>bitmap := bm\<rparr>)"
    using aligned lookup bm assms(2) s v2p by (simp add: free_page_def)
  have cleared: "PageBitmap_get bm (sk + i) = Some False"
    using bm by (rule PageBitmap_get_after_clear)
  from lookup marked aligned freed bm cleared v2p fs show ?thesis by simp
qed

section \<open>The allocator on the example memory maps\<close>

lemmas bitmap_eval = PageBitmap_set_def PageBitmap_get_def PageBitmap_cleared_def shl_int_one_def

lemma init_example: "init example_boot = Returns () (example_state [1])"
  by (simp add: init_def example_boot_def example_state_def example_map_def
      bitmap_array_size_def bitmap_page_size_def pages_def usable_memory_def div_ceil_def
      PAGE_SIZE_def physical_to_virtual_def mark_bitmap_pages.simps bitmap_eval)

text \<open>
  On the example map: a pointer in the middle of a page and a pointer beyond the usable
  region both end in \<open>halt()\<close> with the state untouched, and the pointer of frame 1 has
  its bit cleared.
\<close>

lemma free_page_halts_iff_example:
  "free_page (example_state [1]) 0xFFFF800000100800 = Halts (example_state [1])
   \<and> free_page (example_state [1]) 0xFFFF800000200000 = Halts (example_state [1])
   \<and> free_page (example_state [3]) 0xFFFF800000101000 = Returns () (example_state [1])"
proof -
  have m: "memmap_response (example_state bm) = Some example_map" for bm
    by (simp add: example_state_def)
  have a: "free_page (example_state [1]) 0xFFFF800000100800 = Halts (example_state [1])"
    using free_page_halts_iff [OF m, of "[1]" "0xFFFF800000100800"]
    by (auto simp add: PAGE_SIZE_def)
  have b: "free_page (example_state [1]) 0xFFFF800000200000 = Halts (example_state [1])"
    using free_page_halts_iff [OF m, of "[1]" "0xFFFF800000200000"]
    by (auto simp add: PAGE_SIZE_def example_state_def example_map_def entry_contains_def
        virtual_to_physical_def)
  have c: "free_page (example_state [3]) 0xFFFF800000101000 = Returns () (example_state [1])"
    using free_page_halts_iff [OF m, of "[3]" "0xFFFF800000101000"]
    by (auto simp add: PAGE_SIZE_def example_state_def example_map_def entry_contains_def
        virtual_to_physical_def bitmap_eval)
  from a b c show ?thesis by simp
qed

text \<open>
  C8. Past the two fatal cases \<open>free_page\<close> does not always clear a bit:
  \<open>PageBitmap::set\<close> builds its mask as \<open>1 << bit_index\<close> from the \<open>int\<close> literal. On
  the example map, right after \<open>init()\<close> and also once 31 frames are handed out, the
  page-aligned pointer of frame 32, inside the usable region, makes \<open>free_page\<close> shift
  an \<open>int\<close> by 32, which is undefined; and the pointer of frame 31 clears bits 31 to 63
  at once.
\<close>

theorem free_page_clear_slip:
  "free_page (example_state [1]) 0xFFFF800000120000 = UndefinedBehaviour
   \<and> free_page (example_state [0xFFFFFFFFFFFFFFFF]) 0xFFFF800000120000 = UndefinedBehaviour
   \<and> free_page (example_state [0xFFFFFFFFFFFFFFFF]) 0xFFFF80000011F000
       = Returns () (example_state [0x7FFFFFFF])"
  by (simp add: free_page_def example_state_def example_map_def PAGE_SIZE_def
      virtual_to_physical_def entry_contains_def bitmap_eval)


text \<open>
  C10 at work, through the theorem: with a usable region at physical address 0 and an
  empty bitmap, the scan ends at the first frame of the second region with \<open>page_index\<close>
  still 0, and \<open>allocate_page\<close> returns that frame's HHDM address.
\<close>

theorem allocate_page_zero_sentinel_witness:
  "PageBitmap_get (bitmap (zero_based_state [0])) 0 = Some False
   \<and> scan_entries [0] zero_based_map 0 0 = Some (Scanned 0 0x100000)
   \<and> allocate_page (zero_based_state [0])
       = Some (Returns 0xFFFF800000100000 (zero_based_state [1]))"
proof -
  let ?e = "\<lparr>base = 0, length_e = 0x2000, type_e = USABLE\<rparr>"
  let ?rest = "[\<lparr>base = 0x100000, length_e = 0x2000, type_e = USABLE\<rparr>]"
  have m: "memmap_response (zero_based_state [0]) = Some ([] @ ?e # ?rest)"
    by (simp add: zero_based_state_def zero_based_map_def)
  have clear: "PageBitmap_get (bitmap (zero_based_state [0])) 0 = Some False"
    by (simp add: zero_based_state_def bitmap_eval)
  have rest: "scan_entries [0] ?rest 0 0 = Some (Scanned 0 0x100000)"
    by (simp add: scan_entry.simps PAGE_SIZE_def bitmap_eval)
  from allocate_page_zero_sentinel [OF m _ _ _ _ clear]
  have "scan_entries [0] zero_based_map 0 0 = scan_entries [0] ?rest 0 0"
    by (simp add: PAGE_SIZE_def zero_based_state_def zero_based_map_def)
  with rest have scan: "scan_entries [0] zero_based_map 0 0 = Some (Scanned 0 0x100000)"
    by simp
  then have "allocate_page (zero_based_state [0])
       = Some (Returns 0xFFFF800000100000 (zero_based_state [1]))"
    by (simp add: allocate_page_def zero_based_state_def physical_to_virtual_def bitmap_eval)
  with clear scan show ?thesis by simp
qed

text \<open>
  C2 as stated fails on the example map: the bitmap is placed at the start of the usable
  region, frame index 0 backs it and reads allocated after \<open>init()\<close>, and \<open>free_page\<close>
  called with the HHDM address of that frame, before any allocation, returns normally
  and clears the bit instead of halting.
\<close>

theorem free_page_accepts_bitmap_frame:
  "init example_boot = Returns () (example_state [1])
   \<and> PageBitmap_get (bitmap (example_state [1])) 0 = Some True
   \<and> find_bitmap_space 0xFFFF800000000000 (bitmap_array_size example_map) example_map 0
       = (0xFFFF800000100000, 0)
   \<and> free_page (example_state [1]) 0xFFFF800000100000 = Returns () (example_state [0])"
  by (simp add: init_example)
    (simp add: example_state_def example_map_def free_page_def PAGE_SIZE_def
      virtual_to_physical_def physical_to_virtual_def entry_contains_def bitmap_eval
      bitmap_array_size_def pages_def usable_memory_def)

lemma replicate_513_zero: "replicate 513 (0 :: u64) = 0 # replicate 512 0"
  using replicate_Suc [of 512 "0 :: u64"] by simp

lemma skipping_sizes:
  "bitmap_array_size skipping_map = 4104" "bitmap_page_size skipping_map = 2"
  by (simp_all add: bitmap_page_size_def bitmap_array_size_def pages_def usable_memory_def
      skipping_map_def div_ceil_def PAGE_SIZE_def)

lemma skipping_space:
  "find_bitmap_space 0xFFFF800000000000 4104 skipping_map 0 = (0xFFFF800000100000, 1)"
  by (simp add: skipping_map_def PAGE_SIZE_def physical_to_virtual_def)

lemma init_skipping: "init skipping_boot = Returns () (skipping_state 6)"
proof -
  have "mark_bitmap_pages 0 2 1 (PageBitmap_cleared 4104) = Some (6 # replicate 512 0)"
    by (simp add: PageBitmap_cleared_def replicate_513_zero mark_bitmap_pages.simps
        PageBitmap_set_def shl_int_one_def)
  then show ?thesis
    by (simp add: init_def skipping_boot_def skipping_state_def skipping_sizes skipping_space)
qed

text \<open>
  C2 (as amended) at work, through the theorem, on a map where \<open>init()\<close> skips a region:
  the bitmap lies at 1 MiB with \<open>skipped_pages = 1\<close>; its second page is frame index 2,
  reads allocated, and \<open>free_page\<close> clears its bit.
\<close>

theorem init_marks_bitmap_frames_witness:
  "init skipping_boot = Returns () (skipping_state 6)
   \<and> find_bitmap_space 0xFFFF800000000000 (bitmap_array_size skipping_map) skipping_map 0
       = (0xFFFF800000100000, 1)
   \<and> (1 :: u64) < bitmap_page_size skipping_map
   \<and> find_page_index skipping_map 0x101000 0 = Some 2
   \<and> PageBitmap_get (bitmap (skipping_state 6)) 2 = Some True
   \<and> free_page (skipping_state 6) 0xFFFF800000101000 = Returns () (skipping_state 2)"
proof -
  have m: "memmap_response skipping_boot = Some skipping_map"
    and h: "hhdm_response skipping_boot = Some 0xFFFF800000000000"
    by (simp_all add: skipping_boot_def)
  have ok: "usable_regions_ok skipping_map"
    by (simp add: skipping_map_def entry_ok_def regions_disjoint_def PAGE_SIZE_def)
  have lens: "\<forall>e\<in>set skipping_map. type_e e = USABLE \<longrightarrow> length_e e mod PAGE_SIZE = 0"
    by (simp add: skipping_map_def PAGE_SIZE_def)
  have off: "(0xFFFF800000000000 :: u64) mod PAGE_SIZE = 0"
    by (simp add: PAGE_SIZE_def)
  have i: "(1 :: u64) < bitmap_page_size skipping_map"
    by (simp add: skipping_sizes)
  have st: "skipping_state 6\<lparr>bitmap := bm\<rparr> = skipping_state 2 \<longleftrightarrow> bm = 2 # replicate 512 0" for bm
    by (simp add: skipping_state_def)
  have set2: "PageBitmap_set (6 # replicate 512 0) 2 False = Some (2 # replicate 512 0)"
    by (simp add: PageBitmap_set_def shl_int_one_def)
  from init_marks_bitmap_frames [OF init_skipping m h ok lens off i] i set2
  show ?thesis
    by (auto simp add: init_skipping skipping_sizes skipping_space PAGE_SIZE_def
        virtual_to_physical_def skipping_state_def)
qed


text \<open>
  C7 at work on the example map, through the theorem: after \<open>init()\<close> the first
  allocation returns frame 1, and freeing it restores the state.
\<close>

theorem allocate_then_free_restores_witness:
  "usable_regions_ok example_map
   \<and> allocate_page (example_state [1])
       = Some (Returns 0xFFFF800000101000 (example_state [3]))
   \<and> free_page (example_state [3]) 0xFFFF800000101000 = Returns () (example_state [1])"
proof -
  have m: "memmap_response (example_state [1]) = Some example_map"
    and h: "hhdm_base (example_state [1]) mod PAGE_SIZE = 0"
    by (simp_all add: example_state_def PAGE_SIZE_def)
  have ok: "usable_regions_ok example_map"
    by (simp add: example_map_def entry_ok_def PAGE_SIZE_def)
  have al: "allocate_page (example_state [1])
       = Some (Returns 0xFFFF800000101000 (example_state [3]))"
    by (simp add: allocate_page_def example_state_def example_map_def scan_entry.simps
        PAGE_SIZE_def physical_to_virtual_def bitmap_eval)
  from allocate_then_free_restores [OF m ok h al] ok al
  show ?thesis by simp
qed

lemma sentinel_sizes:
  "bitmap_array_size sentinel_map = 4104" "bitmap_page_size sentinel_map = 2"
  by (simp_all add: bitmap_page_size_def bitmap_array_size_def pages_def usable_memory_def
      sentinel_map_def div_ceil_def PAGE_SIZE_def)

lemma replicate_513: "replicate 513 (0 :: u64) = 0 # replicate 512 0"
  using replicate_Suc [of 512 "0 :: u64"] by simp


lemma get0: "PageBitmap_get (w # ws) 0 = Some (w AND 1 \<noteq> 0)"
  by (simp add: bitmap_eval)
lemma set_low: 
  "PageBitmap_set (w # ws) 0 v = Some ((if v then w OR 1 else w AND NOT 1) # ws)"
  "PageBitmap_set (w # ws) 1 v = Some ((if v then w OR 2 else w AND NOT 2) # ws)"
  "PageBitmap_set (w # ws) 2 v = Some ((if v then w OR 4 else w AND NOT 4) # ws)"
  "PageBitmap_set (w # ws) 3 v = Some ((if v then w OR 8 else w AND NOT 8) # ws)"
  by (simp_all add: bitmap_eval)

text \<open>
  The guarantee on the memory map is needed. The three-region map has a usable page at
  physical address 0, which the boot protocol never reports. In the state \<open>init()\<close>
  leaves for it, bits 2 and 3 are set for the bitmap's own frames; \<open>allocate_page\<close>
  drops the free frame at physical address 0 and returns the page at \<open>0x10000\<close>, but
  sets bit 0, the index it stopped at; \<open>free_page\<close> called with that pointer resolves it
  to frame index 1 and clears bit 1, which was clear already, so the state stays as the
  allocation left it.
\<close>

lemma sentinel_map_round_trip:
  "init sentinel_boot = Returns () (sentinel_state 12)
   \<and> allocate_page (sentinel_state 12)
       = Some (Returns 0xFFFF800000010000 (sentinel_state 13))
   \<and> free_page (sentinel_state 13) 0xFFFF800000010000 = Returns () (sentinel_state 13)
   \<and> PageBitmap_get (bitmap (sentinel_state 12)) 0 = Some False
   \<and> PageBitmap_get (bitmap (sentinel_state 13)) 0 = Some True"
proof -
  have "find_bitmap_space 0xFFFF800000000000 4104 sentinel_map 0 = (0xFFFF800000100000, 2)"
    by (simp add: sentinel_map_def PAGE_SIZE_def physical_to_virtual_def)
  moreover have "mark_bitmap_pages 0 2 2 (PageBitmap_cleared 4104) = Some (12 # replicate 512 0)"
    by (simp add: PageBitmap_cleared_def replicate_513 mark_bitmap_pages.simps set_low)
  ultimately have a: "init sentinel_boot = Returns () (sentinel_state 12)"
    by (simp add: init_def sentinel_boot_def sentinel_state_def sentinel_sizes)
  have b: "allocate_page (sentinel_state 12)
       = Some (Returns 0xFFFF800000010000 (sentinel_state 13))"
    by (simp add: allocate_page_def sentinel_state_def sentinel_map_def scan_entry.simps
        PAGE_SIZE_def physical_to_virtual_def get0 set_low)
  have c: "free_page (sentinel_state 13) 0xFFFF800000010000 = Returns () (sentinel_state 13)"
    by (simp add: free_page_def sentinel_state_def sentinel_map_def entry_contains_def
        PAGE_SIZE_def virtual_to_physical_def set_low)
  have d: "PageBitmap_get (bitmap (sentinel_state 12)) 0 = Some False"
    "PageBitmap_get (bitmap (sentinel_state 13)) 0 = Some True"
    by (simp_all add: sentinel_state_def get0)
  from a b c d show ?thesis by simp
qed

section \<open>One usable region of 64 pages\<close>

lemma small_index:
  assumes "j < 31"
  shows "(of_nat j :: u64) div 64 = 0" "(of_nat j :: u64) mod 64 = of_nat j"
    "unat (of_nat j :: u64) = j"
    "shl_int_one (of_nat j) = Some (push_bit j 1)"
proof -
  show u: "unat (of_nat j :: u64) = j"
    using assms by (simp add: unat_of_nat)
  have "unat ((of_nat j :: u64) div 64) = 0"
    using assms by (simp add: unat_div u)
  then show d: "(of_nat j :: u64) div 64 = 0" by (simp add: unat_eq_0)
  have "unat ((of_nat j :: u64) mod 64) = unat (of_nat j :: u64)"
    using assms by (simp add: unat_mod u)
  then show "(of_nat j :: u64) mod 64 = of_nat j" by (simp only: word_unat_eq_iff)
  have lt: "(of_nat j :: u64) < 32"
    using assms by (simp add: word_less_nat_alt u)
  have "(scast (push_bit j (1 :: 32 word)) :: u64) = push_bit j 1"
    using assms by (intro bit_word_eqI) (auto simp add: bit_simps)
  with lt u show "shl_int_one (of_nat j) = Some (push_bit j 1)"
    by (simp add: shl_int_one_def)
qed

lemma single_word_get:
  assumes "j < 31"
  shows "PageBitmap_get [w] (of_nat j) = Some (bit w j)"
proof -
  have "(w AND push_bit j 1 \<noteq> 0) = bit w j"
    by (simp add: push_bit_eq_mult and_exp_eq_0_iff_not_bit)
  then show ?thesis
    using small_index [OF assms] by (simp add: PageBitmap_get_def)
qed

lemma single_word_set:
  assumes "j < 31"
  shows "PageBitmap_set [w] (of_nat j) True = Some [w OR push_bit j 1]"
  using small_index [OF assms] by (simp add: PageBitmap_set_def)

lemma mask_or_next: "mask k OR 2 ^ k = (mask (Suc k) :: u64)"
  by (simp add: mask_Suc_exp or.commute)


lemma usable_memory_foldl_unusable:
  "\<forall>x\<in>set es. type_e x \<noteq> USABLE \<Longrightarrow>
   foldl (\<lambda>acc e. if type_e e = USABLE then acc + length_e e else acc) a es = a"
  by (induction es arbitrary: a) simp_all

lemma usable_memory_single:
  assumes "\<forall>x\<in>set pre. type_e x \<noteq> USABLE" and "\<forall>x\<in>set post. type_e x \<noteq> USABLE"
    and "type_e e = USABLE"
  shows "usable_memory (pre @ e # post) = length_e e"
  using assms by (simp add: usable_memory_def usable_memory_foldl_unusable)

lemma find_bitmap_space_skip_unusable:
  "\<forall>x\<in>set pre. type_e x \<noteq> USABLE \<Longrightarrow>
   find_bitmap_space h sz (pre @ es) sk = find_bitmap_space h sz es sk"
  by (induction pre) simp_all

lemma single_region_step:
  assumes mm: "memmap_response s = Some (pre @ e # post)"
    and pre: "\<forall>x\<in>set pre. type_e x \<noteq> USABLE"
    and us: "type_e e = USABLE" and len: "length_e e = 64 * PAGE_SIZE"
    and nw: "unat (base e) + 64 * 4096 \<le> 2 ^ 64"
    and bm: "bitmap s = [mask k]" and k: "1 \<le> k" "k \<le> 30"
  shows "allocate_page s
      = Some (Returns (physical_to_virtual (hhdm_base s) (base e + of_nat k * PAGE_SIZE))
                (s\<lparr>bitmap := [mask (Suc k)]\<rparr>))"
proof -
  have ulen: "unat (length_e e) = 262144"
    by (simp add: len PAGE_SIZE_def)
  have nowrap: "unat (length_e e) + 4096 < 2 ^ 64" by (simp add: ulen)
  have kp: "k < unat (length_e e) div 4096" using k by (simp add: ulen)
  have before: "\<forall>j<k. PageBitmap_get [mask k] (0 + of_nat j) = Some True"
    using k by (simp add: single_word_get bit_mask_iff)
  have at: "PageBitmap_get [mask k] (0 + of_nat k) = Some False"
    using k by (simp add: single_word_get bit_mask_iff)
  from scan_entry_first_fit [OF nowrap kp before at, of 0]
  have inner: "scan_entry [mask k] e PAGE_SIZE 0 0
      = Some (Scanned (of_nat k) (base e + of_nat k * PAGE_SIZE))"
    by simp
  have uk: "unat (of_nat k * PAGE_SIZE :: u64) = k * 4096"
    using k by (simp add: PAGE_SIZE_def unat_word_ariths unat_of_nat)
  have "unat (base e + of_nat k * PAGE_SIZE) = unat (base e) + k * 4096"
    using k nw uk unat_add_lem [of "base e" "of_nat k * PAGE_SIZE"] by simp
  then have "unat (base e + of_nat k * PAGE_SIZE) \<noteq> 0" using k by simp
  then have nz: "base e + of_nat k * PAGE_SIZE \<noteq> 0" by (simp add: unat_eq_0)
  have "scan_entries [mask k] (e # post) 0 0
      = Some (Scanned (of_nat k) (base e + of_nat k * PAGE_SIZE))"
    using us inner nz by simp
  then have scan: "scan_entries (bitmap s) (pre @ e # post) 0 0
      = Some (Scanned (of_nat k) (base e + of_nat k * PAGE_SIZE))"
    using pre bm by (simp add: scan_entries_skip_unusable)
  have "PageBitmap_set (bitmap s) (of_nat k) True = Some [mask (Suc k)]"
    using k bm by (simp add: single_word_set mask_or_next)
  with scan mm nz show ?thesis
    by (simp add: allocate_page_def)
qed

lemma single_region_run:
  assumes pre: "\<forall>x\<in>set pre. type_e x \<noteq> USABLE"
    and us: "type_e e = USABLE" and len: "length_e e = 64 * PAGE_SIZE"
    and nw: "unat (base e) + 64 * 4096 \<le> 2 ^ 64"
  shows "memmap_response s = Some (pre @ e # post) \<Longrightarrow> bitmap s = [mask k]
    \<Longrightarrow> 1 \<le> k \<Longrightarrow> k + n \<le> 31
    \<Longrightarrow> allocate_pages n s
      = Some (Returns
          (map (\<lambda>i. physical_to_virtual (hhdm_base s) (base e + of_nat i * PAGE_SIZE))
             [k..<k + n])
          (s\<lparr>bitmap := [mask (k + n)]\<rparr>))"
proof (induction n arbitrary: k s)
  case 0
  then have "s\<lparr>bitmap := [mask k]\<rparr> = s" by simp
  then show ?case by simp
next
  case (Suc n)
  let ?s' = "s\<lparr>bitmap := [mask (Suc k)]\<rparr>"
  from Suc.prems have k30: "k \<le> 30" by simp
  have step: "allocate_page s
      = Some (Returns (physical_to_virtual (hhdm_base s) (base e + of_nat k * PAGE_SIZE)) ?s')"
    using single_region_step [OF Suc.prems(1) pre us len nw Suc.prems(2,3) k30] .
  have "allocate_pages n ?s'
      = Some (Returns
          (map (\<lambda>i. physical_to_virtual (hhdm_base ?s') (base e + of_nat i * PAGE_SIZE))
             [Suc k..<Suc k + n])
          (?s'\<lparr>bitmap := [mask (Suc k + n)]\<rparr>))"
    using Suc.prems by (intro Suc.IH) simp_all
  moreover have "[k..<k + Suc n] = k # [Suc k..<Suc k + n]"
    by (subst upt_rec) simp
  ultimately show ?case
    using step by (simp del: upt_Suc)
qed

text \<open>
  C1 (as amended). For a memory map with exactly one usable entry, of exactly 64 pages,
  that does not reach beyond \<open>2^64\<close> and whose HHDM address is not null: \<open>init()\<close>
  returns with a one-element bitmap in which bit 0 is set, the region's first frame
  holding the bitmap itself, so 63 frames are left to hand out; and each of the first 30
  calls of \<open>allocate_page\<close> returns, the \<open>i\<close>-th of them the HHDM address of frame \<open>i\<close> of
  the region, in ascending order, leaving bits 0 to 30 set.
\<close>

theorem single_region_first_allocations:
  assumes mm: "memmap_response s0 = Some (pre @ e # post)"
    and pre: "\<forall>x\<in>set pre. type_e x \<noteq> USABLE"
    and post: "\<forall>x\<in>set post. type_e x \<noteq> USABLE"
    and us: "type_e e = USABLE" and len: "length_e e = 64 * PAGE_SIZE"
    and hh: "hhdm_response s0 = Some h"
    and nn: "physical_to_virtual h (base e) \<noteq> 0"
    and nw: "unat (base e) + 64 * 4096 \<le> 2 ^ 64"
  shows "init s0 = Returns () (s0\<lparr>hhdm_base := h, bitmap := [1]\<rparr>)
       \<and> allocate_pages 30 (s0\<lparr>hhdm_base := h, bitmap := [1]\<rparr>)
           = Some (Returns
               (map (\<lambda>i. physical_to_virtual h (base e + of_nat i * PAGE_SIZE)) [1..<31])
               (s0\<lparr>hhdm_base := h, bitmap := [0x7FFFFFFF]\<rparr>))"
proof -
  let ?entries = "pre @ e # post"
  let ?s1 = "s0\<lparr>hhdm_base := h, bitmap := [1]\<rparr>"
  have um: "usable_memory ?entries = 64 * PAGE_SIZE"
    using usable_memory_single [OF pre post us] len by simp
  have sizes: "bitmap_array_size ?entries = 8" "bitmap_page_size ?entries = 1"
    by (simp_all add: bitmap_array_size_def bitmap_page_size_def pages_def um
        PAGE_SIZE_def div_ceil_def)
  have space: "find_bitmap_space h 8 ?entries 0 = (physical_to_virtual h (base e), 0)"
    using pre us len by (simp add: find_bitmap_space_skip_unusable PAGE_SIZE_def)
  have mark: "mark_bitmap_pages 0 1 0 (PageBitmap_cleared 8) = Some [1]"
    by (simp add: mark_bitmap_pages.simps PageBitmap_cleared_def PageBitmap_set_def
        shl_int_one_def)
  have a: "init s0 = Returns () ?s1"
    using mm hh nn by (simp add: init_def sizes space mark)
  have m1: "(mask 1 :: u64) = 1" by simp
  have m31: "(mask 31 :: u64) = 0x7FFFFFFF" by (simp add: mask_eq_exp_minus_1)
  have "allocate_pages 30 ?s1
      = Some (Returns
          (map (\<lambda>i. physical_to_virtual (hhdm_base ?s1) (base e + of_nat i * PAGE_SIZE))
             [1..<1 + 30])
          (?s1\<lparr>bitmap := [mask (1 + 30)]\<rparr>))"
    using mm by (intro single_region_run [OF pre us len nw]) (simp_all add: m1)
  then have b: "allocate_pages 30 ?s1
      = Some (Returns
          (map (\<lambda>i. physical_to_virtual h (base e + of_nat i * PAGE_SIZE)) [1..<31])
          (s0\<lparr>hhdm_base := h, bitmap := [0x7FFFFFFF]\<rparr>))"
    by (simp add: m31)
  from a b show ?thesis by simp
qed

lemma allocate_pages_numeral:
  "allocate_pages (numeral k) s =
     (case allocate_page s of
        None \<Rightarrow> None
      | Some (Returns pointer s') \<Rightarrow>
          (case allocate_pages (pred_numeral k) s' of
             Some (Returns pointers s'') \<Rightarrow> Some (Returns (pointer # pointers) s'')
           | other \<Rightarrow> other)
      | Some (Halts s') \<Rightarrow> Some (Halts s')
      | Some UndefinedBehaviour \<Rightarrow> Some UndefinedBehaviour)"
  by (simp add: numeral_eq_Suc)

text \<open>
  C1 as stated fails on the example map: of the first 32 calls of \<open>allocate_page\<close>
  after \<open>init()\<close>, one does not return. Frame 0 is taken by the bitmap, calls 1 to 31
  return frames 1 to 31, the last of them setting bits 31 to 63 at once (\<open>1 << 31\<close> on an
  \<open>int\<close>), and call 32 probes frame index 32 with the undefined shift \<open>1 << 32\<close>.
\<close>

theorem sixty_four_allocations_counterexample:
  "init example_boot = Returns () (example_state [1])
   \<and> allocate_page (example_state [0x7FFFFFFF])
       = Some (Returns 0xFFFF80000011F000 (example_state [0xFFFFFFFFFFFFFFFF]))
   \<and> allocate_page (example_state [0xFFFFFFFFFFFFFFFF]) = Some UndefinedBehaviour
   \<and> allocate_pages 32 (example_state [1]) = Some UndefinedBehaviour"
proof -
  have "allocate_page (example_state [0x7FFFFFFF])
       = Some (Returns 0xFFFF80000011F000 (example_state [0xFFFFFFFFFFFFFFFF]))"
    by (simp add: allocate_page_def example_state_def example_map_def
      scan_entry.simps PAGE_SIZE_def physical_to_virtual_def bitmap_eval)
  moreover have "allocate_page (example_state [0xFFFFFFFFFFFFFFFF]) = Some UndefinedBehaviour"
    by (simp add: allocate_page_def example_state_def example_map_def
      scan_entry.simps PAGE_SIZE_def physical_to_virtual_def bitmap_eval)
  moreover have "allocate_pages 32 (example_state [1]) = Some UndefinedBehaviour"
    by (simp add: allocate_pages_numeral allocate_page_def example_state_def example_map_def
      scan_entry.simps PAGE_SIZE_def physical_to_virtual_def bitmap_eval)
  ultimately show ?thesis by (simp add: init_example)
qed

text \<open>C1 (as amended) at work on the example map, through the theorem.\<close>

theorem single_region_first_allocations_witness:
  "physical_to_virtual 0xFFFF800000000000 0x100000 \<noteq> 0
   \<and> init example_boot = Returns () (example_state [1])
   \<and> allocate_pages 30 (example_state [1])
       = Some (Returns
           (map (\<lambda>i. 0xFFFF800000100000 + of_nat i * 0x1000) [1..<31])
           (example_state [0x7FFFFFFF]))"
proof -
  let ?pre = "[\<lparr>base = 0, length_e = 0x100000, type_e = RESERVED\<rparr>]"
  let ?e = "\<lparr>base = 0x100000, length_e = 0x40000, type_e = USABLE\<rparr>"
  have mm: "memmap_response example_boot = Some (?pre @ ?e # [])"
    and hh: "hhdm_response example_boot = Some 0xFFFF800000000000"
    by (simp_all add: example_boot_def example_map_def)
  have nn: "physical_to_virtual 0xFFFF800000000000 (base ?e) \<noteq> 0"
    by (simp add: physical_to_virtual_def)
  have s: "example_boot\<lparr>hhdm_base := 0xFFFF800000000000, bitmap := bm\<rparr> = example_state bm" for bm
    by (simp add: example_boot_def example_state_def)
  have pre: "\<forall>x\<in>set ?pre. type_e x \<noteq> USABLE"
    and post: "\<forall>x\<in>set []. type_e x \<noteq> USABLE"
    and us: "type_e ?e = USABLE" and len: "length_e ?e = 64 * PAGE_SIZE"
    and nw: "unat (base ?e) + 64 * 4096 \<le> 2 ^ 64"
    by (simp_all add: PAGE_SIZE_def)
  from single_region_first_allocations [OF mm pre post us len hh nn nw] nn
  show ?thesis
    by (simp add: PAGE_SIZE_def s physical_to_virtual_def add.commute del: upt_Suc)
qed

text \<open>
  In general the byte size that \<open>init()\<close> computes is the number of usable pages
  divided by 8 and rounded down.
\<close>

lemma bitmap_array_size_floor:
  "unat (bitmap_array_size entries) = unat (pages entries) div 8"
  by (simp add: bitmap_array_size_def unat_div)

text \<open>
  C5. For 65 usable pages \<open>init()\<close> computes a bitmap of \<open>65 / 8 = 8\<close> bytes, where the
  quotient rounded up is 9: the bitmap has one 64-bit element, and frame index 64 has no
  bit in it.
\<close>

theorem bitmap_array_size_rounds_down:
  "pages map65 = 65
   \<and> bitmap_array_size map65 = 8
   \<and> div_ceil (pages map65) 8 = 9
   \<and> PageBitmap_cleared (bitmap_array_size map65) = [0]
   \<and> PageBitmap_get (PageBitmap_cleared (bitmap_array_size map65)) 64 = None"
  by (simp add: map65_def pages_def bitmap_array_size_def usable_memory_def PAGE_SIZE_def
      div_ceil_def PageBitmap_cleared_def PageBitmap_get_def shl_int_one_def)

end
